theory Spec2Isabelle
  imports Main
begin

section \<open>Data model\<close>

text \<open>
  The planner of \<^verbatim>\<open>cmd/push.go\<close> and the snapshot operations of the \<^verbatim>\<open>state\<close>
  package. Go's \<^verbatim>\<open>int\<close> is modelled as \<^typ>\<open>int\<close>: the code only compares and
  stores these numbers, it never does arithmetic on them that could overflow
  (the one increment, \<^verbatim>\<open>cycleIdx++\<close>, counts printed components).
\<close>

text \<open>
  \<^verbatim>\<open>common.Package\<close>: the declaration is in another package of the repository; these
  are the fields that \<^verbatim>\<open>runPush\<close> and \<^verbatim>\<open>Changed\<close> read (\<^verbatim>\<open>pkg.Name\<close>, \<^verbatim>\<open>pkg.Version\<close>, \<^verbatim>\<open>pkg.Release\<close>,
  \<^verbatim>\<open>pkg.BuildDeps\<close>).
\<close>

record Package =
  Name :: string
  Version :: string
  Release :: int
  BuildDeps :: "string list"

text \<open>
  A directed graph over package positions: an explicit vertex list and an edge
  list, \<open>(u, v)\<close> for the edge \<open>u \<rightarrow> v\<close>.
\<close>

record graph =
  nodes :: "int list"
  edges :: "(int \<times> int) list"

text \<open>
  \<^verbatim>\<open>type State interface { Packages(); NameToSrcIdx(); DepGraph() }\<close>: the three
  methods return stored data, so a snapshot is the record of the three results.
\<close>

record State =
  Packages :: "Package list"
  NameToSrcIdx :: "string \<rightharpoonup> int"
  DepGraph :: graph

text \<open>
  \<^verbatim>\<open>state.Diff\<close>: the fields are those of the two composite literals in
  \<^verbatim>\<open>Changed\<close>. A field that a literal leaves out holds Go's zero value.
\<close>

record Diff =
  Idx :: int
  OldIdx :: int
  RelNum :: int
  OldRelNum :: int
  Ver :: string
  OldVer :: string

datatype error = InvalidTPathError | LoadError string | GraphError string | PublishError string

section \<open>Effects: the trace of a run and how it ends\<close>

datatype arg = S string | I int | E error

datatype logfn =
  Fatalf | Goodln | Goodf | Infoln | Infof | Warnf | Errorln | Errorf | Debugf | Printf | Println

text \<open>
  One event per call that reaches the outside world: a \<^verbatim>\<open>waterlog\<close> call with its
  format string and arguments, a loader call, a \<^verbatim>\<open>push.Publish\<close> call, and the two
  calls of the debugging export.
\<close>

datatype event =
  Log logfn string "arg list"
| Call_LoadSource string
| Call_LoadBinary string
| Call_LoadEopkgRepo string
| Call_Publish Package
| Call_Create string
| Call_DOT graph

text \<open>
  How a run ends: the function returns, the process exits with a status
  (\<^verbatim>\<open>os.Exit\<close>, and \<^verbatim>\<open>waterlog.Fatalf\<close>, which logs and exits with status 1), or a
  run-time panic (an index out of range).
\<close>

datatype outcome = Returned | Exited int | Panicked

datatype 'a res = Val 'a | Halt outcome

type_synonym 'a io = "event list \<times> 'a res"

definition ret :: "'a \<Rightarrow> 'a io" where
  "ret x = ([], Val x)"

definition halt :: "outcome \<Rightarrow> 'a io" where
  "halt out = ([], Halt out)"

definition emit :: "event \<Rightarrow> unit io" where
  "emit e = ([e], Val ())"

definition bind :: "'a io \<Rightarrow> ('a \<Rightarrow> 'b io) \<Rightarrow> 'b io" where
  "bind m f =
     (case m of
        (tr, Halt out) \<Rightarrow> (tr, Halt out)
      | (tr, Val x) \<Rightarrow> (case f x of (tr', r) \<Rightarrow> (tr @ tr', r)))"

definition seq :: "unit io \<Rightarrow> 'b io \<Rightarrow> 'b io" where
  "seq m k = bind m (\<lambda>_. k)"

text \<open>\<^verbatim>\<open>waterlog.Fatalf\<close>: log, then exit with status 1.\<close>

definition fatalf :: "string \<Rightarrow> arg list \<Rightarrow> 'a io" where
  "fatalf fmt args = ([Log Fatalf fmt args], Halt (Exited 1))"

text \<open>\<^verbatim>\<open>xs[i]\<close> on a slice: a panic when \<open>i\<close> is out of range.\<close>

definition index :: "'a list \<Rightarrow> int \<Rightarrow> 'a io" where
  "index xs i = (if 0 \<le> i \<and> i < int (length xs) then ret (xs ! nat i) else halt Panicked)"

section \<open>Collaborators\<close>

text \<open>
  The three loaders, the publisher and the two operations of the external graph
  library are parameters of the model: a run is a function of what they return.
\<close>

record env =
  ext_LoadSource :: "string \<Rightarrow> error + State"
  ext_LoadBinary :: "string \<Rightarrow> error + State"
  ext_LoadEopkgRepo :: "string \<Rightarrow> error + State"
  ext_TopologicalSort :: "graph \<Rightarrow> error + int list"
  ext_StronglyConnectedComponents :: "graph \<Rightarrow> error + int list list"
  ext_Publish :: "Package \<Rightarrow> error + int"

section \<open>Snapshot references\<close>

text \<open>
  \<^verbatim>\<open>strings.Split(s, sep)\<close> for a one-character separator: the fields between the
  separators, one more than there are separators.
\<close>

fun Split :: "string \<Rightarrow> char \<Rightarrow> string list" where
  "Split [] sep = [[]]"
| "Split (c # cs) sep =
     (if c = sep then [] # Split cs sep
      else (case Split cs sep of [] \<Rightarrow> [[c]] | f # fs \<Rightarrow> (c # f) # fs))"

text \<open>
  \<^verbatim>\<open>splitted[0]\<close> is read from the result of \<^verbatim>\<open>strings.Split\<close>, which always has a
  first field (lemma \<open>Split_not_Nil\<close>); the empty case below is never reached.
\<close>

definition ValidTPath :: "string \<Rightarrow> bool" where
  "ValidTPath tpath =
     (let splitted = Split tpath CHR '':'' in
      if length splitted > 2 then False
      else (case splitted of [] \<Rightarrow> False | k # _ \<Rightarrow> k \<in> set [''src'', ''bin'', ''repo'']))"

definition LoadSource :: "env \<Rightarrow> string \<Rightarrow> (error + State) io" where
  "LoadSource env path = seq (emit (Call_LoadSource path)) (ret (ext_LoadSource env path))"

definition LoadBinary :: "env \<Rightarrow> string \<Rightarrow> (error + State) io" where
  "LoadBinary env path = seq (emit (Call_LoadBinary path)) (ret (ext_LoadBinary env path))"

definition LoadEopkgRepo :: "env \<Rightarrow> string \<Rightarrow> (error + State) io" where
  "LoadEopkgRepo env path = seq (emit (Call_LoadEopkgRepo path)) (ret (ext_LoadEopkgRepo env path))"

definition LoadState :: "env \<Rightarrow> string \<Rightarrow> (error + State) io" where
  "LoadState env tpath =
     (if \<not> ValidTPath tpath then ret (Inl InvalidTPathError)
      else
        let splitted = Split tpath CHR '':'' in
        bind (index splitted 0) (\<lambda>kind.
          if kind = ''src'' then bind (index splitted 1) (LoadSource env)
          else if kind = ''bin'' then bind (index splitted 1) (LoadBinary env)
          else bind (index splitted 1) (LoadEopkgRepo env)))"

section \<open>Diffing two snapshots\<close>

text \<open>
  \<^verbatim>\<open>Changed\<close>: the loop over \<^verbatim>\<open>(*cur).Packages()\<close> with its index, \<open>res\<close> the slice
  built so far. \<^verbatim>\<open>(*old).Packages()[oldIdx]\<close> panics when the old snapshot's name
  index points outside its package list. The function has no effect on the
  outside world, so its result is the value or the panic, without a trace.
\<close>

fun Changed_loop :: "State \<Rightarrow> (int \<times> Package) list \<Rightarrow> Diff list \<Rightarrow> Diff list res" where
  "Changed_loop old [] res = Val res"
| "Changed_loop old ((idx, pkg) # rest) res =
     (case NameToSrcIdx old (Name pkg) of
        None \<Rightarrow>
          Changed_loop old rest
            (res @ [\<lparr>Idx = idx, OldIdx = 0, RelNum = Release pkg, OldRelNum = 0,
                     Ver = Version pkg, OldVer = ''''\<rparr>])
      | Some oldIdx \<Rightarrow>
          if 0 \<le> oldIdx \<and> oldIdx < int (length (Packages old)) then
            let oldPkg = Packages old ! nat oldIdx in
            if Release oldPkg \<noteq> Release pkg \<or> Version oldPkg \<noteq> Version pkg then
              Changed_loop old rest
                (res @ [\<lparr>Idx = idx, OldIdx = oldIdx, RelNum = Release pkg,
                         OldRelNum = Release oldPkg, Ver = Version pkg,
                         OldVer = Version oldPkg\<rparr>])
            else Changed_loop old rest res
          else Halt Panicked)"

definition enumerate_from0 :: "'a list \<Rightarrow> (int \<times> 'a) list" where
  "enumerate_from0 xs = zip (map int [0..<length xs]) xs"

definition Changed :: "State \<Rightarrow> State \<Rightarrow> Diff list res" where
  "Changed old cur = Changed_loop old (enumerate_from0 (Packages cur)) []"

text \<open>
  The invariant of a snapshot that \<^verbatim>\<open>Changed\<close> relies on: the name index maps
  names to positions of the package list.
\<close>

definition indexed :: "State \<Rightarrow> bool" where
  "indexed s \<longleftrightarrow> (\<forall>n j. NameToSrcIdx s n = Some j \<longrightarrow> 0 \<le> j \<and> j < int (length (Packages s)))"

text \<open>What one round of the loop appends for the package \<open>pkg\<close> at position \<open>idx\<close>.\<close>

definition Diff_of :: "State \<Rightarrow> int \<Rightarrow> Package \<Rightarrow> Diff list" where
  "Diff_of old idx pkg =
     (case NameToSrcIdx old (Name pkg) of
        None \<Rightarrow>
          [\<lparr>Idx = idx, OldIdx = 0, RelNum = Release pkg, OldRelNum = 0,
            Ver = Version pkg, OldVer = ''''\<rparr>]
      | Some j \<Rightarrow>
          (let oldPkg = Packages old ! nat j in
           if Release oldPkg = Release pkg \<and> Version oldPkg = Version pkg then []
           else [\<lparr>Idx = idx, OldIdx = j, RelNum = Release pkg, OldRelNum = Release oldPkg,
                  Ver = Version pkg, OldVer = Version oldPkg\<rparr>]))"

definition diffs_of :: "State \<Rightarrow> Package list \<Rightarrow> Diff list" where
  "diffs_of old ps = concat (map (\<lambda>(i, p). Diff_of old i p) (enumerate_from0 ps))"

text \<open>
  Modelled from the spec: the classification methods of \<^verbatim>\<open>state.Diff\<close>
  (\<^verbatim>\<open>IsNewRel\<close>, \<^verbatim>\<open>IsSameRel\<close>, \<^verbatim>\<open>IsSame\<close>, \<^verbatim>\<open>IsDowngrade\<close>) are called by
  \<^verbatim>\<open>runPush\<close> but declared in another file of the package. The spec: new-release is
  \<open>new.release > old.release\<close>; the anomaly is \<open>new.release = old.release\<close> with a
  different version; no change is the same release and the same version; a
  downgrade is \<open>new.release < old.release\<close>. They read the fields of the Diff.
\<close>

definition IsNewRel :: "Diff \<Rightarrow> bool" where
  "IsNewRel d \<longleftrightarrow> RelNum d > OldRelNum d"

definition IsSameRel :: "Diff \<Rightarrow> bool" where
  "IsSameRel d \<longleftrightarrow> RelNum d = OldRelNum d"

definition IsSame :: "Diff \<Rightarrow> bool" where
  "IsSame d \<longleftrightarrow> RelNum d = OldRelNum d \<and> Ver d = OldVer d"

definition IsDowngrade :: "Diff \<Rightarrow> bool" where
  "IsDowngrade d \<longleftrightarrow> RelNum d < OldRelNum d"

section \<open>Graphs: lifting and ordering\<close>

text \<open>
  A graph is structurally valid when no vertex is listed twice and every edge
  joins two of its vertices.
\<close>

definition valid_graph :: "graph \<Rightarrow> bool" where
  "valid_graph g \<longleftrightarrow>
     distinct (nodes g) \<and>
     list_all (\<lambda>(u, v). u \<in> set (nodes g) \<and> v \<in> set (nodes g)) (edges g)"

text \<open>
  Modelled from the spec: \<^verbatim>\<open>utils.LiftGraph\<close> is called by \<^verbatim>\<open>runPush\<close> but declared
  in the \<^verbatim>\<open>utils\<close> package, not in \<^verbatim>\<open>cmd/push.go\<close>. The spec: the result is the
  induced subgraph on the positions that satisfy the predicate; positions that
  do not satisfy it, and all edges touching them, are dropped; the operation
  fails only if what it is given is structurally invalid, and an empty result is
  not an error.
\<close>

definition LiftGraph :: "graph \<Rightarrow> (int \<Rightarrow> bool) \<Rightarrow> error + graph" where
  "LiftGraph g pick =
     (if \<not> valid_graph g then Inl (GraphError ''structurally invalid graph'')
      else Inr \<lparr>nodes = filter pick (nodes g),
                edges = filter (\<lambda>(u, v). pick u \<and> pick v) (edges g)\<rparr>)"

text \<open>
  Modelled from the spec: \<^verbatim>\<open>graph.TopologicalSort\<close> belongs to the external graph
  library, not to the repository's files. The spec: for every edge \<open>u \<rightarrow> v\<close>
  (\<open>u\<close> depends on \<open>v\<close>), \<open>v\<close> precedes \<open>u\<close> in the result; an acyclic graph gets the
  full ordering; if a cycle exists, the sort fails. The model emits, one at a
  time, the first vertex not yet emitted all of whose dependencies have been
  emitted, and fails when vertices remain and none of them is ready.
\<close>

definition ready :: "graph \<Rightarrow> int list \<Rightarrow> int \<Rightarrow> bool" where
  "ready g built u \<longleftrightarrow> list_all (\<lambda>(a, b). a = u \<longrightarrow> b \<in> set built) (edges g)"

function topo_loop :: "graph \<Rightarrow> int list \<Rightarrow> int list \<Rightarrow> error + int list" where
  "topo_loop g rest built =
     (if rest = [] then Inr built
      else (case find (ready g built) rest of
              None \<Rightarrow> Inl (GraphError ''topological sort cannot be computed on graph with cycles'')
            | Some u \<Rightarrow> topo_loop g (remove1 u rest) (built @ [u])))"
  by pat_completeness auto
termination
proof (relation "measure (\<lambda>(g, rest, built). length rest)")
  show "wf (measure (\<lambda>(g, rest, built). length rest))" by simp
next
  fix g :: graph and rest built :: "int list" and u :: int
  assume "rest \<noteq> []" and "find (ready g built) rest = Some u"
  then have "u \<in> set rest"
    by (auto simp: find_Some_iff)
  then have "0 < length rest"
    by (rule length_pos_if_in_set)
  then show "((g, remove1 u rest, built @ [u]), (g, rest, built))
               \<in> measure (\<lambda>(g, rest, built). length rest)"
    using \<open>u \<in> set rest\<close> by (simp add: length_remove1)
qed

definition TopologicalSort :: "graph \<Rightarrow> error + int list" where
  "TopologicalSort g = topo_loop g (nodes g) []"

text \<open>\<open>v\<close> stands before the first \<open>u\<close> in the list.\<close>

definition precedes :: "int \<Rightarrow> int \<Rightarrow> int list \<Rightarrow> bool" where
  "precedes v u xs \<longleftrightarrow> u \<in> set xs \<and> v \<in> set (takeWhile (\<lambda>x. x \<noteq> u) xs)"

text \<open>What holds of the vertices still to emit and of those emitted so far.\<close>

definition topo_inv :: "graph \<Rightarrow> int list \<Rightarrow> int list \<Rightarrow> bool" where
  "topo_inv g rest built \<longleftrightarrow>
     distinct rest \<and> distinct built \<and> set rest \<inter> set built = {} \<and>
     set rest \<union> set built = set (nodes g) \<and>
     (\<forall>u v. (u, v) \<in> set (edges g) \<longrightarrow> u \<in> set built \<longrightarrow> precedes v u built)"

section \<open>The push command\<close>

text \<open>
  The two flags of \<^verbatim>\<open>init\<close>:
  \<^verbatim>\<open>BoolP("force", "f", false, ...)\<close> and \<^verbatim>\<open>BoolP("dry-run", "n", true, ...)\<close>.
\<close>

record flags =
  force :: bool
  dryRun :: bool

definition default_flags :: flags where
  "default_flags = \<lparr>force = False, dryRun = True\<rparr>"

text \<open>The four collections that the classification loop of \<^verbatim>\<open>runPush\<close> fills.\<close>

record buckets =
  bumped :: "Package list"
  bset :: "int \<Rightarrow> bool"
  outdated :: "Package list"
  bad :: "Package list"

definition empty_buckets :: buckets where
  "empty_buckets = \<lparr>bumped = [], bset = (\<lambda>_. False), outdated = [], bad = []\<rparr>"

text \<open>A value or panic computed without effects, as a step of a run.\<close>

definition pure_res :: "'a res \<Rightarrow> 'a io" where
  "pure_res r = ([], r)"

text \<open>How a run of the whole function ends: falling off the end is a return.\<close>

definition run :: "unit io \<Rightarrow> event list \<times> outcome" where
  "run m = (case m of (tr, Val _) \<Rightarrow> (tr, Returned) | (tr, Halt out) \<Rightarrow> (tr, out))"

text \<open>Lines 60 to 70: \<^verbatim>\<open>for _, diff := range changes\<close>.\<close>

fun classify :: "State \<Rightarrow> Diff list \<Rightarrow> buckets \<Rightarrow> buckets io" where
  "classify newState [] b = ret b"
| "classify newState (diff # rest) b =
     bind (index (Packages newState) (Idx diff)) (\<lambda>pkg.
       if IsNewRel diff then
         classify newState rest
           (b\<lparr>bumped := bumped b @ [pkg], bset := (bset b)(Idx diff := True)\<rparr>)
       else if IsSameRel diff \<and> \<not> IsSame diff then
         classify newState rest (b\<lparr>bad := bad b @ [pkg]\<rparr>)
       else if IsDowngrade diff then
         classify newState rest (b\<lparr>outdated := outdated b @ [pkg]\<rparr>)
       else classify newState rest b)"

text \<open>\<^verbatim>\<open>for _, pkg := range pkgs { waterlog.Printf(" %s", pkg.Name) }\<close>\<close>

fun print_names :: "Package list \<Rightarrow> unit io" where
  "print_names [] = ret ()"
| "print_names (pkg # rest) =
     seq (emit (Log Printf '' %s'' [S (Name pkg)])) (print_names rest)"

text \<open>Lines 35 to 70: load both snapshots, diff them, classify the changes.\<close>

definition classified :: "env \<Rightarrow> string \<Rightarrow> string \<Rightarrow> (State \<times> buckets) io" where
  "classified env oldTPath newTPath =
     bind (LoadState env oldTPath) (\<lambda>r.
       case r of
         Inl err \<Rightarrow> fatalf ''Failed to load old state %s: %s\<newline>'' [S oldTPath, E err]
       | Inr oldState \<Rightarrow>
           seq (emit (Log Goodln ''Successfully parsed old state!'' []))
          (bind (LoadState env newTPath) (\<lambda>r.
             case r of
               Inl err \<Rightarrow> fatalf ''Failed to load new state %s: %s\<newline>'' [S newTPath, E err]
             | Inr newState \<Rightarrow>
                 seq (emit (Log Goodln ''Successfully parsed new state!'' []))
                (seq (emit (Log Infoln ''Diffing...'' []))
                (bind (pure_res (Changed oldState newState)) (\<lambda>changes.
                 bind (classify newState changes empty_buckets) (\<lambda>b.
                   ret (newState, b))))))))"

text \<open>Lines 75 to 84: the anomaly report, and the exit unless \<^verbatim>\<open>--force\<close>.\<close>

definition report_bad :: "flags \<Rightarrow> Package list \<Rightarrow> unit io" where
  "report_bad fl bad_pkgs =
     (if length bad_pkgs \<noteq> 0 then
        seq (emit (Log Warnf
          ''The following packages have the same release number but different version:'' []))
       (seq (print_names bad_pkgs)
       (seq (emit (Log Println [] []))
       (if \<not> force fl then halt (Exited 1) else ret ())))
      else ret ())"

text \<open>Lines 86 to 92: the downgrade report.\<close>

definition report_outdated :: "Package list \<Rightarrow> unit io" where
  "report_outdated outdated_pkgs =
     (if length outdated_pkgs \<noteq> 0 then
        seq (emit (Log Warnf ''The following packages have older release numbers:'' []))
       (seq (print_names outdated_pkgs)
       (emit (Log Println [] [])))
      else ret ())"

text \<open>
  Modelled from the spec: \<^verbatim>\<open>common.Package.Resolve\<close> is called by \<^verbatim>\<open>runPush\<close> but
  declared in the \<^verbatim>\<open>common\<close> package. The spec: for a candidate package, every
  declared build-dependency name must resolve to an existing package in the
  new snapshot.
\<close>

definition Resolve :: "Package \<Rightarrow> (string \<rightharpoonup> int) \<Rightarrow> bool" where
  "Resolve pkg nameToSrcIdx \<longleftrightarrow> list_all (\<lambda>dep. nameToSrcIdx dep \<noteq> None) (BuildDeps pkg)"

text \<open>Lines 112 to 116: the dependencies of one package that are not in the name index.\<close>

fun print_missing_deps :: "State \<Rightarrow> string list \<Rightarrow> unit io" where
  "print_missing_deps newState [] = ret ()"
| "print_missing_deps newState (dep # rest) =
     (case NameToSrcIdx newState dep of
        None \<Rightarrow> seq (emit (Log Printf '' %s'' [S dep])) (print_missing_deps newState rest)
      | Some _ \<Rightarrow> print_missing_deps newState rest)"

text \<open>Lines 109 to 118: one line per unresolved package.\<close>

fun print_unresolved :: "State \<Rightarrow> Package list \<Rightarrow> unit io" where
  "print_unresolved newState [] = ret ()"
| "print_unresolved newState (pkg # rest) =
     seq (emit (Log Errorf ''%s:'' [S (Name pkg)]))
    (seq (print_missing_deps newState (BuildDeps pkg))
    (seq (emit (Log Println [] []))
    (print_unresolved newState rest)))"

text \<open>Lines 100 to 124: the resolution check over \<open>bumped\<close>, and the exit unless \<^verbatim>\<open>--force\<close>.\<close>

definition check_deps :: "flags \<Rightarrow> State \<Rightarrow> Package list \<Rightarrow> unit io" where
  "check_deps fl newState bumped_pkgs =
     (let unresolved = filter (\<lambda>pkg. \<not> Resolve pkg (NameToSrcIdx newState)) bumped_pkgs in
      if length unresolved \<noteq> 0 then
        seq (emit (Log Errorln
          ''The following packages have nonexistent build dependencies:'' []))
       (seq (print_unresolved newState unresolved)
       (if \<not> force fl then halt (Exited 1) else ret ()))
      else ret ())"

text \<open>Lines 157 to 159: the names of the members of one component.\<close>

fun print_node_names :: "State \<Rightarrow> int list \<Rightarrow> unit io" where
  "print_node_names newState [] = ret ()"
| "print_node_names newState (nodeIdx # rest) =
     bind (index (Packages newState) nodeIdx) (\<lambda>pkg.
       seq (emit (Log Printf '' %s'' [S (Name pkg)])) (print_node_names newState rest))"

text \<open>Lines 149 to 161: \<^verbatim>\<open>for _, cycle := range cycles\<close>, with the counter \<open>cycleIdx\<close>.\<close>

fun report_cycles :: "State \<Rightarrow> int list list \<Rightarrow> int \<Rightarrow> unit io" where
  "report_cycles newState [] cycleIdx = ret ()"
| "report_cycles newState (cycle # rest) cycleIdx =
     (if length cycle \<le> 1 then report_cycles newState rest cycleIdx
      else
        seq (emit (Log Debugf ''Cycle %d:'' [I (cycleIdx + 1)]))
       (seq (print_node_names newState cycle)
       (seq (emit (Log Println [] []))
       (report_cycles newState rest (cycleIdx + 1)))))"

text \<open>Lines 168 to 170: the build order, one name per line.\<close>

fun print_order :: "State \<Rightarrow> int list \<Rightarrow> unit io" where
  "print_order newState [] = ret ()"
| "print_order newState (idx # rest) =
     bind (index (Packages newState) idx) (\<lambda>pkg.
       seq (emit (Log Println [] [S (Name pkg)])) (print_order newState rest))"

text \<open>Lines 176 to 184: publish in order, stopping at the first failure.\<close>

fun publish_all :: "env \<Rightarrow> State \<Rightarrow> int list \<Rightarrow> unit io" where
  "publish_all env newState [] = ret ()"
| "publish_all env newState (idx # rest) =
     bind (index (Packages newState) idx) (\<lambda>pkg.
       seq (emit (Log Infof ''Publishing %s\<newline>'' [S (Name pkg)]))
      (seq (emit (Call_Publish pkg))
      (case ext_Publish env pkg of
         Inl err \<Rightarrow>
           fatalf ''Publishing package %s failed: %s\<newline>'' [S (Name pkg), E err]
       | Inr jobID \<Rightarrow>
           seq (emit (Log Goodf ''Published package %s with job ID %d\<newline>''
                        [S (Name pkg), I jobID]))
               (publish_all env newState rest))))"

text \<open>
  Lines 141 to 184: sort the lifted graph; on failure export the graph, report
  the components and stop; otherwise print the order and, unless
  \<^verbatim>\<open>--dry-run\<close>, publish.
\<close>

definition order_and_publish :: "env \<Rightarrow> flags \<Rightarrow> State \<Rightarrow> graph \<Rightarrow> unit io" where
  "order_and_publish env fl newState lifted =
     (case ext_TopologicalSort env lifted of
        Inl err \<Rightarrow>
          seq (emit (Call_Create ''lifted.gv''))
         (seq (emit (Call_DOT lifted))
         (seq (case ext_StronglyConnectedComponents env lifted of
                 Inr cycles \<Rightarrow> report_cycles newState cycles 0
               | Inl _ \<Rightarrow> ret ())
         (fatalf ''Failed to compute build order: %s\<newline>'' [E err])))
      | Inr order \<Rightarrow>
          seq (emit (Log Goodln ''Here's the build order:'' []))
         (seq (print_order newState order)
         (if dryRun fl then halt Returned
          else publish_all env newState order)))"

text \<open>Lines 126 to 139: announce the packages, take the dependency graph, lift it.\<close>

definition lift_bumped :: "State \<Rightarrow> buckets \<Rightarrow> graph io" where
  "lift_bumped newState b =
     seq (emit (Log Goodf ''The following packages will be updated:'' []))
    (seq (print_names (bumped b))
    (seq (emit (Log Println [] []))
    (let depGraph = DepGraph newState in
     seq (emit (Log Goodln ''Successfully generated dependency graph!'' []))
    (case LiftGraph depGraph (\<lambda>i. bset b i) of
       Inl err \<Rightarrow>
         fatalf ''Failed to lift updated packages from dependency graph: %s\<newline>'' [E err]
     | Inr lifted \<Rightarrow>
         seq (emit (Log Goodln ''Successfully isolated packages to update!'' []))
             (ret lifted)))))"

text \<open>Lines 126 to 184: lift, sort, report or publish.\<close>

definition plan :: "env \<Rightarrow> flags \<Rightarrow> State \<Rightarrow> buckets \<Rightarrow> unit io" where
  "plan env fl newState b =
     bind (lift_bumped newState b) (\<lambda>lifted. order_and_publish env fl newState lifted)"

text \<open>
  Lines 86 to 184: what follows the anomaly report: the downgrade report, the
  return when nothing is to be updated, the resolution check, the plan.
\<close>

definition after_bad :: "env \<Rightarrow> flags \<Rightarrow> State \<Rightarrow> buckets \<Rightarrow> unit io" where
  "after_bad env fl newState b =
     seq (report_outdated (outdated b))
    (if length (bumped b) = 0 then
       seq (emit (Log Infoln ''No packages to update. Exiting...'' [])) (halt Returned)
     else
       seq (check_deps fl newState (bumped b)) (plan env fl newState b))"

text \<open>
  \<^verbatim>\<open>runPush\<close>, for the two arguments that \<^verbatim>\<open>cobra.ExactArgs(2)\<close> guarantees.
\<close>

definition runPush :: "env \<Rightarrow> flags \<Rightarrow> string \<Rightarrow> string \<Rightarrow> event list \<times> outcome" where
  "runPush env fl oldTPath newTPath =
     run (bind (classified env oldTPath newTPath) (\<lambda>(newState, b).
            seq (report_bad fl (bad b)) (after_bad env fl newState b)))"

text \<open>
  Lines 35 to 124 as one computation: its value is what the plan starts from,
  when no load failure, no check and no empty update set has ended the run.
\<close>

definition checked :: "env \<Rightarrow> flags \<Rightarrow> string \<Rightarrow> string \<Rightarrow> (State \<times> buckets) io" where
  "checked env fl oldTPath newTPath =
     bind (classified env oldTPath newTPath) (\<lambda>(newState, b).
       seq (report_bad fl (bad b))
      (seq (report_outdated (outdated b))
      (if length (bumped b) = 0 then
         seq (emit (Log Infoln ''No packages to update. Exiting...'' [])) (halt Returned)
       else
         seq (check_deps fl newState (bumped b)) (ret (newState, b)))))"

text \<open>The lines that the report prints for a list of packages, and for components.\<close>

definition name_lines :: "Package list \<Rightarrow> event list" where
  "name_lines pkgs = map (\<lambda>pkg. Log Printf '' %s'' [S (Name pkg)]) pkgs"

definition unresolved_lines :: "State \<Rightarrow> Package \<Rightarrow> event list" where
  "unresolved_lines newState pkg =
     Log Errorf ''%s:'' [S (Name pkg)] #
     map (\<lambda>dep. Log Printf '' %s'' [S dep])
       (filter (\<lambda>dep. NameToSrcIdx newState dep = None) (BuildDeps pkg)) @
     [Log Println [] []]"

fun cycle_lines :: "State \<Rightarrow> int list list \<Rightarrow> int \<Rightarrow> event list" where
  "cycle_lines newState [] k = []"
| "cycle_lines newState (c # cs) k =
     Log Debugf ''Cycle %d:'' [I k] #
     map (\<lambda>n. Log Printf '' %s'' [S (Name (Packages newState ! nat n))]) c @
     [Log Println [] []] @ cycle_lines newState cs (k + 1)"

definition order_lines :: "State \<Rightarrow> int list \<Rightarrow> event list" where
  "order_lines newState order =
     map (\<lambda>idx. Log Println [] [S (Name (Packages newState ! nat idx))]) order"

definition in_range :: "State \<Rightarrow> int \<Rightarrow> bool" where
  "in_range s i \<longleftrightarrow> 0 \<le> i \<and> i < int (length (Packages s))"

definition is_publish :: "event \<Rightarrow> bool" where
  "is_publish e = (case e of Call_Publish _ \<Rightarrow> True | _ \<Rightarrow> False)"

text \<open>
  What the classification loop adds to the four collections for a list of
  Diffs: the package at each Diff's position, by the class of the Diff.
\<close>

definition pkg_at :: "State \<Rightarrow> Diff \<Rightarrow> Package" where
  "pkg_at s d = Packages s ! nat (Idx d)"

definition buckets_after :: "State \<Rightarrow> Diff list \<Rightarrow> buckets \<Rightarrow> buckets" where
  "buckets_after s ds b =
     \<lparr>bumped = bumped b @ map (pkg_at s) (filter IsNewRel ds),
      bset = (\<lambda>i. bset b i \<or> i \<in> Idx ` set (filter IsNewRel ds)),
      outdated = outdated b @ map (pkg_at s) (filter IsDowngrade ds),
      bad = bad b @ map (pkg_at s) (filter (\<lambda>d. IsSameRel d \<and> \<not> IsSame d) ds)\<rparr>"

definition no_publish :: "event list \<Rightarrow> bool" where
  "no_publish tr \<longleftrightarrow> list_all (\<lambda>e. \<not> is_publish e) tr"

section \<open>Example snapshots\<close>

text \<open>
  The packages of the spec's scenarios A and B, an unchanged package, and a
  package that only the new snapshot has; \<open>pkgA\<close> declares a build dependency
  \<open>pkgD\<close> that no snapshot has.
\<close>

definition ex_old :: State where
  "ex_old =
     \<lparr>Packages =
        [\<lparr>Name = ''pkgA'', Version = ''1.0'', Release = 1, BuildDeps = []\<rparr>,
         \<lparr>Name = ''pkgB'', Version = ''2.0'', Release = 3, BuildDeps = []\<rparr>,
         \<lparr>Name = ''pkgS'', Version = ''0.1'', Release = 7, BuildDeps = []\<rparr>],
      NameToSrcIdx = [''pkgA'' \<mapsto> 0, ''pkgB'' \<mapsto> 1, ''pkgS'' \<mapsto> 2],
      DepGraph = \<lparr>nodes = [0, 1, 2], edges = []\<rparr>\<rparr>"

definition ex_new :: State where
  "ex_new =
     \<lparr>Packages =
        [\<lparr>Name = ''pkgA'', Version = ''1.1'', Release = 2,
           BuildDeps = [''pkgN'', ''pkgD'']\<rparr>,
         \<lparr>Name = ''pkgB'', Version = ''2.1'', Release = 3, BuildDeps = []\<rparr>,
         \<lparr>Name = ''pkgS'', Version = ''0.1'', Release = 7, BuildDeps = []\<rparr>,
         \<lparr>Name = ''pkgN'', Version = ''5'', Release = 1, BuildDeps = [''pkgS'']\<rparr>],
      NameToSrcIdx = [''pkgA'' \<mapsto> 0, ''pkgB'' \<mapsto> 1, ''pkgS'' \<mapsto> 2, ''pkgN'' \<mapsto> 3],
      DepGraph = \<lparr>nodes = [0, 1, 2, 3], edges = [(0, 3), (3, 2)]\<rparr>\<rparr>"

text \<open>
  An old snapshot whose position 0 holds a package \<open>pkgN\<close> with release 0 and an
  empty version.
\<close>

definition ex_old_zero :: State where
  "ex_old_zero =
     \<lparr>Packages = [\<lparr>Name = ''pkgN'', Version = '''', Release = 0, BuildDeps = []\<rparr>],
      NameToSrcIdx = [''pkgN'' \<mapsto> 0],
      DepGraph = \<lparr>nodes = [0], edges = []\<rparr>\<rparr>"

text \<open>
  A new snapshot with a dependency cycle between \<open>pkgA\<close> and \<open>pkgN\<close>; \<open>pkgS\<close> has a
  new release and \<open>pkgB\<close> is unchanged.
\<close>

definition ex_cyc :: State where
  "ex_cyc =
     \<lparr>Packages =
        [\<lparr>Name = ''pkgA'', Version = ''1.1'', Release = 2, BuildDeps = [''pkgN'']\<rparr>,
         \<lparr>Name = ''pkgB'', Version = ''2.0'', Release = 3, BuildDeps = []\<rparr>,
         \<lparr>Name = ''pkgS'', Version = ''0.1'', Release = 8, BuildDeps = []\<rparr>,
         \<lparr>Name = ''pkgN'', Version = ''5'', Release = 1, BuildDeps = [''pkgS'', ''pkgA'']\<rparr>],
      NameToSrcIdx = [''pkgA'' \<mapsto> 0, ''pkgB'' \<mapsto> 1, ''pkgS'' \<mapsto> 2, ''pkgN'' \<mapsto> 3],
      DepGraph = \<lparr>nodes = [0, 1, 2, 3], edges = [(0, 3), (3, 2), (3, 0)]\<rparr>\<rparr>"

text \<open>
  Collaborators for the examples: a source-tree loader that knows four trees,
  the ordering modelled above, a component computation that answers with the
  components \<open>[2]\<close> and \<open>[0, 3]\<close>, and a publisher that always succeeds. The
  second environment differs in that its component computation fails.
\<close>

definition ex_env :: env where
  "ex_env =
     \<lparr>ext_LoadSource =
        (\<lambda>path. if path = ''old'' then Inr ex_old
                else if path = ''new'' then Inr ex_new
                else if path = ''cyc'' then Inr ex_cyc
                else if path = ''zero'' then Inr ex_old_zero
                else Inl (LoadError ''unreadable'')),
      ext_LoadBinary = (\<lambda>path. Inl (LoadError ''unreadable'')),
      ext_LoadEopkgRepo = (\<lambda>path. Inl (LoadError ''unreadable'')),
      ext_TopologicalSort = TopologicalSort,
      ext_StronglyConnectedComponents = (\<lambda>g. Inr [[2], [0, 3]]),
      ext_Publish = (\<lambda>pkg. Inr 7)\<rparr>"

definition ex_env_no_components :: env where
  "ex_env_no_components =
     ex_env\<lparr>ext_StronglyConnectedComponents := (\<lambda>g. Inl (GraphError ''no components''))\<rparr>"



section \<open>Facts about splitting\<close>

lemma Split_not_Nil: "Split s sep \<noteq> []"
  by (induction s) (auto split: list.splits)

lemma length_Split: "length (Split s sep) = Suc (count_list s sep)"
  by (induction s) (auto split: list.splits simp: Split_not_Nil)

lemma hd_Split: "hd (Split s sep) = takeWhile (\<lambda>c. c \<noteq> sep) s"
  by (induction s) (auto split: list.splits simp: Split_not_Nil)

lemma ValidTPath_iff:
  "ValidTPath tpath \<longleftrightarrow>
     count_list tpath CHR '':'' \<le> 1 \<and>
     takeWhile (\<lambda>c. c \<noteq> CHR '':'') tpath \<in> {''src'', ''bin'', ''repo''}"
proof -
  obtain k ks where sp: "Split tpath CHR '':'' = k # ks"
    using Split_not_Nil [of tpath "CHR '':''"] by (cases "Split tpath CHR '':''") auto
  have k: "k = takeWhile (\<lambda>c. c \<noteq> CHR '':'') tpath"
    using hd_Split [of tpath "CHR '':''"] sp by simp
  have len: "length (k # ks) = Suc (count_list tpath CHR '':'')"
    using length_Split [of tpath "CHR '':''"] sp by simp
  show ?thesis
    unfolding ValidTPath_def Let_def sp using k len by auto
qed

section \<open>Facts about diffing\<close>

lemma Changed_loop_eq:
  "indexed old \<Longrightarrow>
   Changed_loop old ips res = Val (res @ concat (map (\<lambda>(i, p). Diff_of old i p) ips))"
proof (induction ips arbitrary: res)
  case Nil
  then show ?case by simp
next
  case (Cons ip ips)
  obtain i p where ip: "ip = (i, p)" by (cases ip)
  show ?case
  proof (cases "NameToSrcIdx old (Name p)")
    case None
    then show ?thesis
      using Cons ip by (simp add: Diff_of_def)
  next
    case (Some j)
    then have "0 \<le> j \<and> j < int (length (Packages old))"
      using Cons.prems by (auto simp: indexed_def)
    then show ?thesis
      using Cons Some ip by (simp add: Diff_of_def Let_def)
  qed
qed

lemma enumerate_from0_snoc:
  "enumerate_from0 (xs @ [x]) = enumerate_from0 xs @ [(int (length xs), x)]"
  by (simp add: enumerate_from0_def)

lemma Idx_Diff_of: "d \<in> set (Diff_of old i p) \<Longrightarrow> Idx d = i"
  by (auto simp: Diff_of_def Let_def split: option.splits if_splits)

lemma diffs_of_snoc:
  "diffs_of old (ps @ [p]) = diffs_of old ps @ Diff_of old (int (length ps)) p"
  by (simp add: diffs_of_def enumerate_from0_snoc)

lemma diffs_of_Idx_range:
  "d \<in> set (diffs_of old ps) \<Longrightarrow> 0 \<le> Idx d \<and> Idx d < int (length ps)"
proof (induction ps arbitrary: d rule: rev_induct)
  case Nil
  then show ?case by (simp add: diffs_of_def enumerate_from0_def)
next
  case (snoc p ps)
  then show ?case
    by (fastforce simp: diffs_of_snoc dest: Idx_Diff_of)
qed

lemma diffs_of_sorted: "sorted_wrt (<) (map Idx (diffs_of old ps))"
proof (induction ps rule: rev_induct)
  case Nil
  then show ?case by (simp add: diffs_of_def enumerate_from0_def)
next
  case (snoc p ps)
  have one: "sorted_wrt (<) (map Idx (Diff_of old (int (length ps)) p))"
    by (simp add: Diff_of_def Let_def split: option.splits)
  show ?case
    using snoc one
    by (auto simp: diffs_of_snoc sorted_wrt_append dest!: diffs_of_Idx_range Idx_Diff_of)
qed

lemma filter_Diff_of:
  "filter (\<lambda>d. Idx d = k) (Diff_of old i p) = (if k = i then Diff_of old i p else [])"
  by (auto simp: Diff_of_def Let_def split: option.splits)

lemma diffs_of_at:
  "i < length ps \<Longrightarrow>
   filter (\<lambda>d. Idx d = int i) (diffs_of old ps) = Diff_of old (int i) (ps ! i)"
proof (induction ps rule: rev_induct)
  case Nil
  then show ?case by simp
next
  case (snoc p ps)
  show ?case
  proof (cases "i < length ps")
    case True
    then show ?thesis
      using snoc.IH by (simp add: diffs_of_snoc filter_Diff_of nth_append)
  next
    case False
    then have i: "i = length ps" using snoc.prems by simp
    have "filter (\<lambda>d. Idx d = int (length ps)) (diffs_of old ps) = []"
      by (auto simp: filter_empty_conv dest: diffs_of_Idx_range)
    then show ?thesis
      by (simp add: i diffs_of_snoc filter_Diff_of)
  qed
qed

lemma Changed_eq: "indexed old \<Longrightarrow> Changed old cur = Val (diffs_of old (Packages cur))"
  by (simp add: Changed_def Changed_loop_eq diffs_of_def)

lemma indexed_ex_old: "indexed ex_old"
  by (auto simp: indexed_def ex_old_def split: if_splits)

lemma indexed_ex_old_zero: "indexed ex_old_zero"
  by (auto simp: indexed_def ex_old_zero_def split: if_splits)

lemma Changed_ex:
  "Changed ex_old ex_new =
     Val [\<lparr>Idx = 0, OldIdx = 0, RelNum = 2, OldRelNum = 1, Ver = ''1.1'', OldVer = ''1.0''\<rparr>,
          \<lparr>Idx = 1, OldIdx = 1, RelNum = 3, OldRelNum = 3, Ver = ''2.1'', OldVer = ''2.0''\<rparr>,
          \<lparr>Idx = 3, OldIdx = 0, RelNum = 1, OldRelNum = 0, Ver = ''5'', OldVer = ''''\<rparr>]"
  by (simp add: Changed_def enumerate_from0_def ex_old_def ex_new_def upt_rec)

section \<open>Facts about lifting and ordering\<close>

lemma valid_graph_edge:
  "valid_graph g \<Longrightarrow> (u, v) \<in> set (edges g) \<Longrightarrow> u \<in> set (nodes g) \<and> v \<in> set (nodes g)"
  by (auto simp: valid_graph_def list_all_iff)

lemma valid_graph_lifted:
  "valid_graph g \<Longrightarrow>
   valid_graph \<lparr>nodes = filter pick (nodes g),
                edges = filter (\<lambda>(u, v). pick u \<and> pick v) (edges g)\<rparr>"
  by (auto simp: valid_graph_def list_all_iff)

lemma precedes_append: "precedes v u xs \<Longrightarrow> precedes v u (xs @ ys)"
  by (auto simp: precedes_def takeWhile_append1)

lemma precedes_snoc: "v \<in> set xs \<Longrightarrow> u \<notin> set xs \<Longrightarrow> precedes v u (xs @ [u])"
proof -
  assume v: "v \<in> set xs" and u: "u \<notin> set xs"
  have "takeWhile (\<lambda>x. x \<noteq> u) (xs @ [u]) = xs @ takeWhile (\<lambda>x. x \<noteq> u) [u]"
    using u by (intro takeWhile_append2) auto
  then show ?thesis
    using v by (simp add: precedes_def)
qed

lemma ready_iff: "ready g built u \<longleftrightarrow> (\<forall>v. (u, v) \<in> set (edges g) \<longrightarrow> v \<in> set built)"
  by (auto simp: ready_def list_all_iff)

text \<open>Among the vertices that remain in an acyclic graph, one has no dependency left.\<close>

lemma acyclic_has_ready:
  assumes acyc: "acyclic (set (edges g))" and ne: "rest \<noteq> []"
    and cover: "\<forall>v. (\<exists>u. (u, v) \<in> set (edges g)) \<longrightarrow> v \<in> set rest \<union> set built"
  shows "\<exists>u. find (ready g built) rest = Some u"
proof -
  have "wf ((set (edges g))\<inverse>)"
    using acyc by (simp add: finite_acyclic_wf)
  moreover obtain x where "x \<in> set rest"
    using ne by (cases rest) auto
  ultimately obtain z where z: "z \<in> set rest"
    and zmin: "\<And>y. (y, z) \<in> (set (edges g))\<inverse> \<Longrightarrow> y \<notin> set rest"
    by (rule wfE_min) blast
  have "ready g built z"
    unfolding ready_iff using zmin cover by blast
  then have "find (ready g built) rest \<noteq> None"
    using z by (auto simp: find_None_iff)
  then show ?thesis by auto
qed

lemma topo_inv_step:
  assumes inv: "topo_inv g rest built" and f: "find (ready g built) rest = Some u"
  shows "topo_inv g (remove1 u rest) (built @ [u])"
proof -
  have u: "u \<in> set rest" and r: "ready g built u"
    using f by (auto simp: find_Some_iff)
  have nb: "u \<notin> set built"
    using inv u by (auto simp: topo_inv_def)
  have "\<forall>a v. (a, v) \<in> set (edges g) \<longrightarrow> a \<in> set (built @ [u]) \<longrightarrow> precedes v a (built @ [u])"
  proof (intro allI impI)
    fix a v
    assume e: "(a, v) \<in> set (edges g)" and a: "a \<in> set (built @ [u])"
    show "precedes v a (built @ [u])"
    proof (cases "a = u")
      case True
      then have "v \<in> set built"
        using r e by (auto simp: ready_iff)
      then show ?thesis
        using True nb by (simp add: precedes_snoc)
    next
      case False
      then have "a \<in> set built" using a by simp
      then have "precedes v a built"
        using inv e by (auto simp: topo_inv_def)
      then show ?thesis by (rule precedes_append)
    qed
  qed
  moreover have "distinct (remove1 u rest)" "distinct (built @ [u])"
    "set (remove1 u rest) \<inter> set (built @ [u]) = {}"
    "set (remove1 u rest) \<union> set (built @ [u]) = set (nodes g)"
    using inv u nb by (auto simp: topo_inv_def)
  ultimately show ?thesis
    unfolding topo_inv_def by blast
qed

lemma topo_loop_sorts:
  "valid_graph g \<Longrightarrow> acyclic (set (edges g)) \<Longrightarrow> topo_inv g rest built \<Longrightarrow>
   \<exists>order. topo_loop g rest built = Inr order \<and> topo_inv g [] order"
proof (induction g rest built rule: topo_loop.induct)
  case (1 g rest built)
  show ?case
  proof (cases "rest = []")
    case True
    then show ?thesis
      using "1.prems" by simp
  next
    case False
    have "\<forall>v. (\<exists>u. (u, v) \<in> set (edges g)) \<longrightarrow> v \<in> set rest \<union> set built"
    proof (intro allI impI)
      fix v
      assume "\<exists>u. (u, v) \<in> set (edges g)"
      then have "v \<in> set (nodes g)"
        using valid_graph_edge [OF "1.prems"(1)] by blast
      then show "v \<in> set rest \<union> set built"
        using "1.prems"(3) by (simp add: topo_inv_def)
    qed
    then obtain u where u: "find (ready g built) rest = Some u"
      using acyclic_has_ready [OF "1.prems"(2) False] by blast
    have "topo_inv g (remove1 u rest) (built @ [u])"
      using "1.prems"(3) u by (rule topo_inv_step)
    then obtain order where
      "topo_loop g (remove1 u rest) (built @ [u]) = Inr order \<and> topo_inv g [] order"
      using "1.IH" [OF False u "1.prems"(1,2)] by blast
    moreover have "topo_loop g rest built = topo_loop g (remove1 u rest) (built @ [u])"
      using False u by (subst topo_loop.simps) simp
    ultimately show ?thesis by auto
  qed
qed

lemma TopologicalSort_sorts:
  assumes "valid_graph g" and "acyclic (set (edges g))"
  shows "\<exists>order. TopologicalSort g = Inr order \<and> distinct order \<and>
           set order = set (nodes g) \<and> length order = length (nodes g) \<and>
           (\<forall>u v. (u, v) \<in> set (edges g) \<longrightarrow> precedes v u order)"
proof -
  have "topo_inv g (nodes g) []"
    using assms(1) by (simp add: topo_inv_def valid_graph_def)
  then obtain order where o: "topo_loop g (nodes g) [] = Inr order" "topo_inv g [] order"
    using topo_loop_sorts [OF assms] by blast
  have d: "distinct order" and s: "set order = set (nodes g)"
    using o(2) by (auto simp: topo_inv_def)
  have "length order = length (nodes g)"
    using d s assms(1) by (metis distinct_card valid_graph_def)
  moreover have "\<forall>u v. (u, v) \<in> set (edges g) \<longrightarrow> precedes v u order"
    using o(2) s valid_graph_edge [OF assms(1)] by (auto simp: topo_inv_def)
  ultimately show ?thesis
    using o(1) d s by (simp add: TopologicalSort_def)
qed

lemma LiftGraph_valid: "LiftGraph g pick = Inr h \<Longrightarrow> valid_graph h"
  by (auto simp: LiftGraph_def valid_graph_lifted split: if_splits)

section \<open>Facts about runs\<close>

lemma bind_Val [simp]: "bind (tr, Val x) f = (tr @ fst (f x), snd (f x))"
  by (simp add: bind_def split: prod.splits)

lemma bind_Halt [simp]: "bind (tr, Halt out) f = (tr, Halt out)"
  by (simp add: bind_def)

lemma bind_ret [simp]: "bind (ret x) f = f x"
  by (simp add: ret_def)

lemma seq_Val [simp]: "seq (tr, Val x) m = (tr @ fst m, snd m)"
  by (simp add: seq_def)

lemma seq_Halt [simp]: "seq (tr, Halt out) m = (tr, Halt out)"
  by (simp add: seq_def)

lemma seq_emit [simp]: "seq (emit e) m = (e # fst m, snd m)"
  by (simp add: emit_def)

lemma seq_ret [simp]: "seq (ret x) m = m"
  by (simp add: ret_def)

lemma fst_ret [simp]: "fst (ret x) = []" and snd_ret [simp]: "snd (ret x) = Val x"
  by (simp_all add: ret_def)

lemma fst_halt [simp]: "fst (halt out) = []" and snd_halt [simp]: "snd (halt out) = Halt out"
  by (simp_all add: halt_def)

lemma fst_fatalf [simp]: "fst (fatalf fmt args) = [Log Fatalf fmt args]"
  and snd_fatalf [simp]: "snd (fatalf fmt args) = Halt (Exited 1)"
  by (simp_all add: fatalf_def)

lemma fst_bind:
  "fst (bind m f) = fst m @ (case snd m of Val x \<Rightarrow> fst (f x) | Halt _ \<Rightarrow> [])"
  by (cases m; cases "snd m") auto

lemma snd_bind:
  "snd (bind m f) = (case snd m of Val x \<Rightarrow> snd (f x) | Halt out \<Rightarrow> Halt out)"
  by (cases m; cases "snd m") auto

lemma fst_seq: "fst (seq m k) = fst m @ (case snd m of Val x \<Rightarrow> fst k | Halt _ \<Rightarrow> [])"
  by (simp add: seq_def fst_bind)

lemma snd_seq: "snd (seq m k) = (case snd m of Val x \<Rightarrow> snd k | Halt out \<Rightarrow> Halt out)"
  by (simp add: seq_def snd_bind)

lemma bind_assoc: "bind (bind m f) g = bind m (\<lambda>x. bind (f x) g)"
  by (cases m; cases "snd m") (auto simp: fst_bind snd_bind split: res.splits)

lemma bind_seq: "bind (seq m k) g = seq m (bind k g)"
  by (simp add: seq_def bind_assoc)

lemma index_in_range: "in_range s i \<Longrightarrow> index (Packages s) i = ret (Packages s ! nat i)"
  by (simp add: index_def in_range_def)

lemma print_names_eq: "print_names pkgs = (name_lines pkgs, Val ())"
  by (induction pkgs) (simp_all add: name_lines_def ret_def)

lemma print_missing_deps_eq:
  "print_missing_deps s deps =
     (map (\<lambda>dep. Log Printf '' %s'' [S dep]) (filter (\<lambda>dep. NameToSrcIdx s dep = None) deps),
      Val ())"
  by (induction deps) (auto simp: ret_def)

lemma print_unresolved_eq:
  "print_unresolved s pkgs = (concat (map (unresolved_lines s) pkgs), Val ())"
  by (induction pkgs) (simp_all add: unresolved_lines_def print_missing_deps_eq ret_def)

lemma print_node_names_eq:
  "\<forall>n \<in> set c. in_range s n \<Longrightarrow>
   print_node_names s c =
     (map (\<lambda>n. Log Printf '' %s'' [S (Name (Packages s ! nat n))]) c, Val ())"
  by (induction c) (simp_all add: index_in_range, simp add: ret_def)

lemma print_order_eq:
  "\<forall>n \<in> set order. in_range s n \<Longrightarrow> print_order s order = (order_lines s order, Val ())"
  by (induction order) (simp_all add: index_in_range order_lines_def, simp add: ret_def)

lemma report_cycles_eq:
  "\<forall>c \<in> set cycles. 2 \<le> length c \<longrightarrow> (\<forall>n \<in> set c. in_range s n) \<Longrightarrow>
   report_cycles s cycles k =
     (cycle_lines s (filter (\<lambda>c. 2 \<le> length c) cycles) (k + 1), Val ())"
proof (induction cycles arbitrary: k)
  case Nil
  then show ?case by (simp add: ret_def)
next
  case (Cons c cycles)
  show ?case
  proof (cases "length c \<le> 1")
    case True
    then show ?thesis using Cons by simp
  next
    case False
    then have "\<forall>n \<in> set c. in_range s n" using Cons.prems by simp
    then show ?thesis
      using False Cons by (simp add: print_node_names_eq)
  qed
qed

lemma bind_halt [simp]: "bind (halt out) f = halt out"
  by (simp add: halt_def)

lemma seq_halt [simp]: "seq (halt out) m = halt out"
  by (simp add: halt_def)

lemma buckets_after_Nil: "buckets_after s [] b = b"
  by (simp add: buckets_after_def)

lemma buckets_after_Cons:
  "buckets_after s (d # ds) b =
     buckets_after s ds
       (if IsNewRel d then b\<lparr>bumped := bumped b @ [pkg_at s d], bset := (bset b)(Idx d := True)\<rparr>
        else if IsSameRel d \<and> \<not> IsSame d then b\<lparr>bad := bad b @ [pkg_at s d]\<rparr>
        else if IsDowngrade d then b\<lparr>outdated := outdated b @ [pkg_at s d]\<rparr>
        else b)"
  by (auto simp: buckets_after_def IsNewRel_def IsSameRel_def IsDowngrade_def fun_eq_iff)

lemma classify_eq:
  "\<forall>d \<in> set ds. in_range s (Idx d) \<Longrightarrow> classify s ds b = ret (buckets_after s ds b)"
proof (induction ds arbitrary: b)
  case Nil
  then show ?case by (simp add: buckets_after_Nil)
next
  case (Cons d ds)
  then have r: "in_range s (Idx d)" and rest: "\<forall>d \<in> set ds. in_range s (Idx d)"
    by simp_all
  show ?case
    unfolding buckets_after_Cons [of s d ds b]
    using Cons.IH [OF rest] r by (simp add: index_in_range pkg_at_def)
qed

lemma classified_eq:
  assumes "LoadState env oldTPath = (tr1, Val (Inr old))"
    and "LoadState env newTPath = (tr2, Val (Inr new))"
    and "indexed old"
  shows "classified env oldTPath newTPath =
           (tr1 @ Log Goodln ''Successfully parsed old state!'' [] # tr2 @
              [Log Goodln ''Successfully parsed new state!'' [], Log Infoln ''Diffing...'' []],
            Val (new, buckets_after new (diffs_of old (Packages new)) empty_buckets))"
proof -
  have c: "Changed old new = Val (diffs_of old (Packages new))"
    using assms(3) by (rule Changed_eq)
  have "\<forall>d \<in> set (diffs_of old (Packages new)). in_range new (Idx d)"
    by (auto simp: in_range_def dest: diffs_of_Idx_range)
  then have "classify new (diffs_of old (Packages new)) empty_buckets =
      ret (buckets_after new (diffs_of old (Packages new)) empty_buckets)"
    by (rule classify_eq)
  then show ?thesis
    using assms(1,2) c by (simp add: classified_def pure_res_def)
qed

lemma runPush_via_checked:
  "runPush env fl oldTPath newTPath =
     run (bind (checked env fl oldTPath newTPath) (\<lambda>(newState, b). plan env fl newState b))"
proof -
  have "bind (checked env fl oldTPath newTPath) (\<lambda>(newState, b). plan env fl newState b) =
        bind (classified env oldTPath newTPath)
          (\<lambda>(newState, b). seq (report_bad fl (bad b)) (after_bad env fl newState b))"
    unfolding checked_def bind_assoc
    by (rule arg_cong [where f = "bind (classified env oldTPath newTPath)"])
       (auto simp: fun_eq_iff after_bad_def bind_seq)
  then show ?thesis
    by (simp add: runPush_def)
qed

lemma run_parts: "run m = (fst m, case snd m of Val _ \<Rightarrow> Returned | Halt out \<Rightarrow> out)"
  by (cases m; cases "snd m") (auto simp: run_def)

lemma diffs_of_mem:
  assumes "d \<in> set (diffs_of old ps)"
  shows "d \<in> set (Diff_of old (Idx d) (ps ! nat (Idx d)))"
proof -
  have r: "0 \<le> Idx d \<and> Idx d < int (length ps)"
    using assms by (rule diffs_of_Idx_range)
  then have "nat (Idx d) < length ps"
    by linarith
  then have "filter (\<lambda>x. Idx x = int (nat (Idx d))) (diffs_of old ps) =
      Diff_of old (int (nat (Idx d))) (ps ! nat (Idx d))"
    by (rule diffs_of_at)
  moreover have "d \<in> set (filter (\<lambda>x. Idx x = int (nat (Idx d))) (diffs_of old ps))"
    using assms r by simp
  ultimately show ?thesis
    using r by simp
qed

lemma report_bad_eq:
  "bad_pkgs \<noteq> [] \<Longrightarrow>
   report_bad fl bad_pkgs =
     (Log Warnf
        ''The following packages have the same release number but different version:'' [] #
      name_lines bad_pkgs @ [Log Println [] []],
      if force fl then Val () else Halt (Exited 1))"
  by (simp add: report_bad_def print_names_eq ret_def halt_def)

lemma report_bad_Nil: "report_bad fl [] = ret ()"
  by (simp add: report_bad_def)

lemma check_deps_eq:
  "check_deps fl s pkgs =
     (let unresolved = filter (\<lambda>pkg. \<not> Resolve pkg (NameToSrcIdx s)) pkgs in
      if unresolved = [] then ([], Val ())
      else
        (Log Errorln ''The following packages have nonexistent build dependencies:'' [] #
         concat (map (unresolved_lines s) unresolved),
         if force fl then Val () else Halt (Exited 1)))"
  by (simp add: check_deps_def Let_def print_unresolved_eq ret_def halt_def)

lemma Diff_of_matched:
  "d \<in> set (Diff_of old k pkg) \<Longrightarrow> NameToSrcIdx old (Name pkg) = Some j \<Longrightarrow>
   RelNum d = Release pkg \<and> OldRelNum d = Release (Packages old ! nat j)"
  by (auto simp: Diff_of_def Let_def split: if_splits)


lemma report_outdated_eq:
  "report_outdated pkgs =
     (if pkgs = [] then []
      else Log Warnf ''The following packages have older release numbers:'' [] #
           name_lines pkgs @ [Log Println [] []],
      Val ())"
  by (simp add: report_outdated_def print_names_eq ret_def emit_def)

lemma snd_report_bad:
  "snd (report_bad fl pkgs) = (if pkgs \<noteq> [] \<and> \<not> force fl then Halt (Exited 1) else Val ())"
  by (cases "pkgs = []") (simp_all add: report_bad_Nil report_bad_eq)

lemma check_deps_parts:
  "check_deps fl s pkgs =
     (if filter (\<lambda>pkg. \<not> Resolve pkg (NameToSrcIdx s)) pkgs = [] then []
      else Log Errorln ''The following packages have nonexistent build dependencies:'' [] #
           concat (map (unresolved_lines s)
             (filter (\<lambda>pkg. \<not> Resolve pkg (NameToSrcIdx s)) pkgs)),
      if filter (\<lambda>pkg. \<not> Resolve pkg (NameToSrcIdx s)) pkgs \<noteq> [] \<and> \<not> force fl
      then Halt (Exited 1) else Val ())"
  by (simp add: check_deps_eq Let_def)


section \<open>Facts about publishing\<close>

lemma no_publish_Nil [simp]: "no_publish []"
  by (simp add: no_publish_def)

lemma no_publish_Cons [simp]: "no_publish (e # tr) \<longleftrightarrow> \<not> is_publish e \<and> no_publish tr"
  by (simp add: no_publish_def)

lemma no_publish_append [simp]: "no_publish (xs @ ys) \<longleftrightarrow> no_publish xs \<and> no_publish ys"
  by (simp add: no_publish_def)

lemma is_publish_simps [simp]:
  "\<not> is_publish (Log f fmt args)" "\<not> is_publish (Call_LoadSource p)"
  "\<not> is_publish (Call_LoadBinary p)" "\<not> is_publish (Call_LoadEopkgRepo p)"
  "\<not> is_publish (Call_Create p)" "\<not> is_publish (Call_DOT g)"
  "is_publish (Call_Publish pkg)"
  by (simp_all add: is_publish_def)

lemma no_publish_bind:
  "no_publish (fst m) \<Longrightarrow> (\<And>x. no_publish (fst (f x))) \<Longrightarrow> no_publish (fst (bind m f))"
  by (simp add: fst_bind split: res.splits)

lemma no_publish_seq:
  "no_publish (fst m) \<Longrightarrow> no_publish (fst k) \<Longrightarrow> no_publish (fst (seq m k))"
  by (simp add: fst_seq split: res.splits)

lemma no_publish_emit: "\<not> is_publish e \<Longrightarrow> no_publish (fst (emit e))"
  by (simp add: emit_def)

lemma no_publish_index: "no_publish (fst (index xs i))"
  by (simp add: index_def)

lemma no_publish_name_lines: "no_publish (name_lines pkgs)"
  by (induction pkgs) (simp_all add: name_lines_def)

lemma no_publish_order_lines: "no_publish (order_lines s order)"
  by (induction order) (simp_all add: order_lines_def)

lemma no_publish_unresolved: "no_publish (concat (map (unresolved_lines s) pkgs))"
proof (induction pkgs)
  case Nil
  then show ?case by simp
next
  case (Cons p ps)
  have "no_publish (map (\<lambda>dep. Log Printf '' %s'' [S dep]) ds)" for ds :: "string list"
    by (induction ds) simp_all
  then show ?case
    using Cons by (simp add: unresolved_lines_def)
qed

lemma no_publish_LoadState: "no_publish (fst (LoadState env tpath))"
  by (auto simp: LoadState_def Let_def LoadSource_def LoadBinary_def LoadEopkgRepo_def
      intro!: no_publish_bind no_publish_seq no_publish_index no_publish_emit)

lemma no_publish_classify: "no_publish (fst (classify s ds b))"
  by (induction ds arbitrary: b) (auto intro!: no_publish_bind no_publish_index)

lemma no_publish_classified: "no_publish (fst (classified env oldTPath newTPath))"
  unfolding classified_def
  by (auto simp: pure_res_def split: sum.splits
      intro!: no_publish_bind no_publish_seq no_publish_LoadState no_publish_classify
        no_publish_emit)

lemma no_publish_report_bad: "no_publish (fst (report_bad fl pkgs))"
  by (cases "pkgs = []") (simp_all add: report_bad_Nil report_bad_eq no_publish_name_lines)

lemma no_publish_report_outdated: "no_publish (fst (report_outdated pkgs))"
  by (simp add: report_outdated_eq no_publish_name_lines)

lemma no_publish_check_deps: "no_publish (fst (check_deps fl s pkgs))"
  by (simp add: check_deps_parts no_publish_unresolved)

lemma no_publish_lift_bumped: "no_publish (fst (lift_bumped s b))"
  by (auto simp: lift_bumped_def Let_def print_names_eq no_publish_name_lines split: sum.splits)

lemma no_publish_print_order: "no_publish (fst (print_order s order))"
  by (induction order)
     (auto intro!: no_publish_bind no_publish_seq no_publish_index no_publish_emit)

lemma no_publish_print_node_names: "no_publish (fst (print_node_names s c))"
  by (induction c)
     (auto intro!: no_publish_bind no_publish_seq no_publish_index no_publish_emit)

lemma no_publish_report_cycles: "no_publish (fst (report_cycles s cycles k))"
  by (induction cycles arbitrary: k)
     (auto intro!: no_publish_seq no_publish_emit no_publish_print_node_names)

lemma no_publish_order_and_publish:
  "dryRun fl \<Longrightarrow> no_publish (fst (order_and_publish env fl s lifted))"
  unfolding order_and_publish_def
  by (auto split: sum.splits
      intro!: no_publish_seq no_publish_emit no_publish_report_cycles no_publish_print_order)

lemma no_publish_runPush:
  "dryRun fl \<Longrightarrow> no_publish (fst (runPush env fl oldTPath newTPath))"
  unfolding runPush_def run_parts fst_conv
  by (auto simp: after_bad_def plan_def
      intro!: no_publish_bind no_publish_seq no_publish_classified no_publish_report_bad
        no_publish_report_outdated no_publish_check_deps no_publish_lift_bumped
        no_publish_order_and_publish no_publish_emit)

lemma lift_bumped_eq:
  "LiftGraph (DepGraph s) (bset b) = Inr lifted \<Longrightarrow>
   lift_bumped s b =
     (Log Goodf ''The following packages will be updated:'' [] # name_lines (bumped b) @
      [Log Println [] [], Log Goodln ''Successfully generated dependency graph!'' [],
       Log Goodln ''Successfully isolated packages to update!'' []],
      Val lifted)"
  by (simp add: lift_bumped_def Let_def print_names_eq ret_def)

lemma runPush_plan:
  "checked env fl oldTPath newTPath = (pre, Val (s, b)) \<Longrightarrow>
   LiftGraph (DepGraph s) (bset b) = Inr lifted \<Longrightarrow>
   runPush env fl oldTPath newTPath =
     (pre @ fst (lift_bumped s b) @ fst (order_and_publish env fl s lifted),
      case snd (order_and_publish env fl s lifted) of Val _ \<Rightarrow> Returned | Halt out \<Rightarrow> out)"
  by (simp add: runPush_via_checked plan_def lift_bumped_eq run_parts)

section \<open>Facts about the examples\<close>

lemma LoadState_ex_old: "LoadState ex_env ''src:old'' = ([Call_LoadSource ''old''], Val (Inr ex_old))"
  by (simp add: LoadState_def ValidTPath_def index_def ret_def bind_def seq_def emit_def
      LoadSource_def ex_env_def)

lemma LoadState_ex_new: "LoadState ex_env ''src:new'' = ([Call_LoadSource ''new''], Val (Inr ex_new))"
  by (simp add: LoadState_def ValidTPath_def index_def ret_def bind_def seq_def emit_def
      LoadSource_def ex_env_def)


lemma LoadState_ex_cyc: "LoadState ex_env ''src:cyc'' = ([Call_LoadSource ''cyc''], Val (Inr ex_cyc))"
  by (simp add: LoadState_def ValidTPath_def index_def ret_def bind_def seq_def emit_def
      LoadSource_def ex_env_def)

section \<open>Claims about diffing\<close>

text \<open>
  C3. For an old snapshot whose name index points into its package list,
  \<open>Changed old cur\<close> returns a list of Diffs whose positions \<open>Idx\<close> strictly
  increase (the order of the new snapshot's packages), and for every position
  \<open>i\<close> of the new snapshot the Diffs attached to \<open>i\<close> are: exactly one, with the
  old-side fields unset, when the package's name is absent from the old
  snapshot; none, when the matched old package has the same release and the
  same version; exactly one, carrying both releases and both versions, when the
  matched old package differs in release or version.
\<close>

theorem Changed_contents:
  assumes "indexed old"
  shows "\<exists>ds. Changed old cur = Val ds \<and>
           sorted_wrt (<) (map Idx ds) \<and>
           (\<forall>i < length (Packages cur).
              filter (\<lambda>d. Idx d = int i) ds =
                (let pkg = Packages cur ! i in
                 case NameToSrcIdx old (Name pkg) of
                   None \<Rightarrow>
                     [\<lparr>Idx = int i, OldIdx = 0, RelNum = Release pkg, OldRelNum = 0,
                       Ver = Version pkg, OldVer = ''''\<rparr>]
                 | Some j \<Rightarrow>
                     (let oldPkg = Packages old ! nat j in
                      if Release oldPkg = Release pkg \<and> Version oldPkg = Version pkg then []
                      else [\<lparr>Idx = int i, OldIdx = j, RelNum = Release pkg,
                             OldRelNum = Release oldPkg, Ver = Version pkg,
                             OldVer = Version oldPkg\<rparr>])))"
proof -
  have "Changed old cur = Val (diffs_of old (Packages cur))"
    using assms by (rule Changed_eq)
  moreover have "sorted_wrt (<) (map Idx (diffs_of old (Packages cur)))"
    by (rule diffs_of_sorted)
  moreover have "\<forall>i < length (Packages cur).
      filter (\<lambda>d. Idx d = int i) (diffs_of old (Packages cur)) =
        Diff_of old (int i) (Packages cur ! i)"
    by (simp add: diffs_of_at)
  ultimately show ?thesis
    unfolding Diff_of_def Let_def by blast
qed

theorem Changed_contents_witness:
  "indexed ex_old \<and>
   Changed ex_old ex_new =
     Val [\<lparr>Idx = 0, OldIdx = 0, RelNum = 2, OldRelNum = 1, Ver = ''1.1'', OldVer = ''1.0''\<rparr>,
          \<lparr>Idx = 1, OldIdx = 1, RelNum = 3, OldRelNum = 3, Ver = ''2.1'', OldVer = ''2.0''\<rparr>,
          \<lparr>Idx = 3, OldIdx = 0, RelNum = 1, OldRelNum = 0, Ver = ''5'', OldVer = ''''\<rparr>] \<and>
   (\<exists>ds. Changed ex_old ex_new = Val ds \<and> sorted_wrt (<) (map Idx ds) \<and>
      filter (\<lambda>d. Idx d = 2) ds = [] \<and>
      filter (\<lambda>d. Idx d = 3) ds =
        [\<lparr>Idx = 3, OldIdx = 0, RelNum = 1, OldRelNum = 0, Ver = ''5'', OldVer = ''''\<rparr>])"
proof -
  obtain ds where ds: "Changed ex_old ex_new = Val ds" "sorted_wrt (<) (map Idx ds)"
    using Changed_contents [OF indexed_ex_old, of ex_new] by blast
  have "ds = [\<lparr>Idx = 0, OldIdx = 0, RelNum = 2, OldRelNum = 1, Ver = ''1.1'', OldVer = ''1.0''\<rparr>,
          \<lparr>Idx = 1, OldIdx = 1, RelNum = 3, OldRelNum = 3, Ver = ''2.1'', OldVer = ''2.0''\<rparr>,
          \<lparr>Idx = 3, OldIdx = 0, RelNum = 1, OldRelNum = 0, Ver = ''5'', OldVer = ''''\<rparr>]"
    using ds(1) Changed_ex by simp
  then show ?thesis
    using ds indexed_ex_old by simp
qed

text \<open>
  C10. Take a package \<open>pkg\<close> of the new snapshot whose release is not 0 or whose
  version is not empty. Against an old snapshot without its name, \<open>Changed\<close>
  emits for it one Diff whose \<open>OldIdx\<close>, \<open>OldRelNum\<close> and \<open>OldVer\<close> are 0, 0 and the
  empty string. Against an old snapshot that has the name at position 0 with
  release 0 and an empty version, \<open>Changed\<close> emits the very same Diff value: the
  Diff does not tell the two situations apart.
\<close>

theorem Changed_absent_old_side_zero:
  assumes "indexed old1" and "indexed old2"
    and "i < length (Packages cur)"
    and "NameToSrcIdx old1 (Name (Packages cur ! i)) = None"
    and "NameToSrcIdx old2 (Name (Packages cur ! i)) = Some 0"
    and "Release (Packages old2 ! 0) = 0" and "Version (Packages old2 ! 0) = ''''"
    and "Release (Packages cur ! i) \<noteq> 0 \<or> Version (Packages cur ! i) \<noteq> ''''"
  shows "\<exists>ds1 ds2 d.
           Changed old1 cur = Val ds1 \<and> Changed old2 cur = Val ds2 \<and>
           filter (\<lambda>d. Idx d = int i) ds1 = [d] \<and>
           filter (\<lambda>d. Idx d = int i) ds2 = [d] \<and>
           OldIdx d = 0 \<and> OldRelNum d = 0 \<and> OldVer d = '''' \<and>
           Idx d = int i \<and> RelNum d = Release (Packages cur ! i) \<and>
           Ver d = Version (Packages cur ! i)"
proof -
  let ?pkg = "Packages cur ! i"
  let ?d = "\<lparr>Idx = int i, OldIdx = 0, RelNum = Release ?pkg, OldRelNum = 0,
             Ver = Version ?pkg, OldVer = ''''\<rparr>"
  have c1: "Changed old1 cur = Val (diffs_of old1 (Packages cur))"
    using assms(1) by (rule Changed_eq)
  have c2: "Changed old2 cur = Val (diffs_of old2 (Packages cur))"
    using assms(2) by (rule Changed_eq)
  have f1: "filter (\<lambda>d. Idx d = int i) (diffs_of old1 (Packages cur)) = [?d]"
    using assms(3,4) by (simp add: diffs_of_at Diff_of_def)
  have "Diff_of old2 (int i) ?pkg = [?d]"
    using assms(5-8) by (auto simp: Diff_of_def Let_def)
  then have f2: "filter (\<lambda>d. Idx d = int i) (diffs_of old2 (Packages cur)) = [?d]"
    using assms(3) by (simp add: diffs_of_at)
  show ?thesis
    using c1 c2 f1 f2 by simp
qed

theorem Changed_absent_old_side_zero_witness:
  "indexed ex_old \<and> indexed ex_old_zero \<and> (3::nat) < length (Packages ex_new) \<and>
   NameToSrcIdx ex_old (Name (Packages ex_new ! 3)) = None \<and>
   NameToSrcIdx ex_old_zero (Name (Packages ex_new ! 3)) = Some 0 \<and>
   Release (Packages ex_old_zero ! 0) = 0 \<and> Version (Packages ex_old_zero ! 0) = '''' \<and>
   Release (Packages ex_new ! 3) = 1 \<and> Version (Packages ex_new ! 3) = ''5'' \<and>
   (\<exists>ds1 ds2 d.
      Changed ex_old ex_new = Val ds1 \<and> Changed ex_old_zero ex_new = Val ds2 \<and>
      filter (\<lambda>d. Idx d = 3) ds1 = [d] \<and> filter (\<lambda>d. Idx d = 3) ds2 = [d] \<and>
      d = \<lparr>Idx = 3, OldIdx = 0, RelNum = 1, OldRelNum = 0, Ver = ''5'', OldVer = ''''\<rparr>)"
proof -
  have h3: "(3::nat) < length (Packages ex_new)" by (simp add: ex_new_def)
  have h4: "NameToSrcIdx ex_old (Name (Packages ex_new ! 3)) = None"
    by (simp add: ex_new_def ex_old_def)
  have h5: "NameToSrcIdx ex_old_zero (Name (Packages ex_new ! 3)) = Some 0"
    by (simp add: ex_new_def ex_old_zero_def)
  have h6: "Release (Packages ex_old_zero ! 0) = 0" by (simp add: ex_old_zero_def)
  have h7: "Version (Packages ex_old_zero ! 0) = ''''" by (simp add: ex_old_zero_def)
  have h8: "Release (Packages ex_new ! 3) \<noteq> 0 \<or> Version (Packages ex_new ! 3) \<noteq> ''''"
    by (simp add: ex_new_def)
  obtain ds1 ds2 d where r:
    "Changed ex_old ex_new = Val ds1" "Changed ex_old_zero ex_new = Val ds2"
    "filter (\<lambda>d. Idx d = int 3) ds1 = [d]" "filter (\<lambda>d. Idx d = int 3) ds2 = [d]"
    "OldIdx d = 0" "OldRelNum d = 0" "OldVer d = ''''"
    "Idx d = int 3" "RelNum d = Release (Packages ex_new ! 3)"
    "Ver d = Version (Packages ex_new ! 3)"
    using Changed_absent_old_side_zero
      [OF indexed_ex_old indexed_ex_old_zero h3 h4 h5 h6 h7 h8] by blast
  have "d = \<lparr>Idx = 3, OldIdx = 0, RelNum = 1, OldRelNum = 0, Ver = ''5'', OldVer = ''''\<rparr>"
    using r(5-10) by (cases d) (simp add: ex_new_def)
  moreover have "Release (Packages ex_new ! 3) = 1" "Version (Packages ex_new ! 3) = ''5''"
    by (simp_all add: ex_new_def)
  ultimately show ?thesis
    using r(1-4) indexed_ex_old indexed_ex_old_zero h3 h4 h5 h6 h7 by auto
qed

section \<open>Claims about lifting and ordering\<close>

text \<open>
  C2. For a structurally valid graph, \<open>LiftGraph g pick\<close> returns the induced
  subgraph on the positions of \<open>g\<close> that satisfy \<open>pick\<close>: its vertices are exactly
  those positions (all of \<open>{p. pick p}\<close> when \<open>pick\<close> holds of positions of \<open>g\<close>
  only), it has the edge \<open>(u, v)\<close> if and only if \<open>pick u\<close>, \<open>pick v\<close> and \<open>(u, v)\<close> is
  an edge of \<open>g\<close>, and lifting the result again with \<open>pick\<close> returns it unchanged.
\<close>

theorem LiftGraph_induced_subgraph:
  assumes "valid_graph g"
  shows "\<exists>h. LiftGraph g pick = Inr h \<and>
           set (nodes h) = {p \<in> set (nodes g). pick p} \<and>
           ((\<forall>p. pick p \<longrightarrow> p \<in> set (nodes g)) \<longrightarrow> set (nodes h) = {p. pick p}) \<and>
           (\<forall>u v. (u, v) \<in> set (edges h) \<longleftrightarrow> pick u \<and> pick v \<and> (u, v) \<in> set (edges g)) \<and>
           LiftGraph h pick = Inr h"
proof -
  let ?h = "\<lparr>nodes = filter pick (nodes g),
             edges = filter (\<lambda>(u, v). pick u \<and> pick v) (edges g)\<rparr>"
  have h: "LiftGraph g pick = Inr ?h"
    using assms by (simp add: LiftGraph_def)
  have v: "valid_graph ?h"
    using assms by (rule valid_graph_lifted)
  have e: "filter (\<lambda>(u, v). pick u \<and> pick v) (filter (\<lambda>(u, v). pick u \<and> pick v) (edges g))
             = filter (\<lambda>(u, v). pick u \<and> pick v) (edges g)"
    by (simp add: case_prod_unfold)
  have again: "LiftGraph ?h pick = Inr ?h"
    using v e by (simp add: LiftGraph_def)
  have "set (nodes ?h) = {p \<in> set (nodes g). pick p}"
    by auto
  moreover have "(\<forall>p. pick p \<longrightarrow> p \<in> set (nodes g)) \<longrightarrow> set (nodes ?h) = {p. pick p}"
    by auto
  moreover have "\<forall>u v. (u, v) \<in> set (edges ?h) \<longleftrightarrow> pick u \<and> pick v \<and> (u, v) \<in> set (edges g)"
    by auto
  ultimately show ?thesis
    using h again by blast
qed

theorem LiftGraph_induced_subgraph_witness:
  "valid_graph (DepGraph ex_new) \<and>
   (\<exists>h. LiftGraph (DepGraph ex_new) (\<lambda>i. i = 0 \<or> i = 3) = Inr h \<and>
      set (nodes h) = {0, 3} \<and> set (edges h) = {(0, 3)} \<and>
      LiftGraph h (\<lambda>i. i = 0 \<or> i = 3) = Inr h)"
proof -
  have v: "valid_graph (DepGraph ex_new)"
    by (simp add: valid_graph_def ex_new_def)
  obtain h where h: "LiftGraph (DepGraph ex_new) (\<lambda>i. i = 0 \<or> i = 3) = Inr h"
    "LiftGraph h (\<lambda>i. i = 0 \<or> i = 3) = Inr h"
    using LiftGraph_induced_subgraph [OF v, of "\<lambda>i. i = 0 \<or> i = 3"] by blast
  have "h = \<lparr>nodes = [0, 3], edges = [(0, 3)]\<rparr>"
    using h(1) by (simp add: LiftGraph_def valid_graph_def ex_new_def)
  then show ?thesis
    using v h by auto
qed

text \<open>
  C1. For a lifted subgraph without a cycle, the topological sort succeeds; the
  order it returns has no repetition and holds exactly the vertices of the
  subgraph (as many entries as vertices), and for every edge \<open>u \<rightarrow> v\<close> of the
  subgraph (\<open>u\<close> depends on \<open>v\<close>) the vertex \<open>v\<close> stands before \<open>u\<close> in it.
\<close>

theorem build_order_of_lifted:
  assumes "LiftGraph g pick = Inr lifted" and "acyclic (set (edges lifted))"
  shows "\<exists>order. TopologicalSort lifted = Inr order \<and> distinct order \<and>
           set order = set (nodes lifted) \<and> length order = length (nodes lifted) \<and>
           (\<forall>u v. (u, v) \<in> set (edges lifted) \<longrightarrow> precedes v u order)"
proof -
  have "valid_graph lifted"
    using assms(1) by (rule LiftGraph_valid)
  then show ?thesis
    using assms(2) by (rule TopologicalSort_sorts)
qed

theorem build_order_of_lifted_witness:
  "LiftGraph (DepGraph ex_new) (\<lambda>i. i = 0 \<or> i = 3) = Inr \<lparr>nodes = [0, 3], edges = [(0, 3)]\<rparr> \<and>
   acyclic (set (edges \<lparr>nodes = [0, 3], edges = [(0, 3)]\<rparr>)) \<and>
   TopologicalSort \<lparr>nodes = [0, 3], edges = [(0, 3)]\<rparr> = Inr [3, 0] \<and>
   (\<exists>order. TopologicalSort \<lparr>nodes = [0, 3], edges = [(0, 3)]\<rparr> = Inr order \<and>
      distinct order \<and> set order = {0, 3} \<and> precedes 3 0 order)"
proof -
  let ?l = "\<lparr>nodes = [0, 3], edges = [(0, 3)]\<rparr>"
  have l: "LiftGraph (DepGraph ex_new) (\<lambda>i. i = 0 \<or> i = 3) = Inr ?l"
    by (simp add: LiftGraph_def valid_graph_def ex_new_def)
  have "acyclic ({} :: (int \<times> int) set)"
    by (simp add: acyclic_def)
  then have a: "acyclic (set (edges ?l))"
    by (simp add: acyclic_insert)
  have t: "TopologicalSort ?l = Inr [3, 0]"
    by (simp add: TopologicalSort_def ready_def)
  obtain order where "TopologicalSort ?l = Inr order" "distinct order"
    "set order = set (nodes ?l)" "\<forall>u v. (u, v) \<in> set (edges ?l) \<longrightarrow> precedes v u order"
    using build_order_of_lifted [OF l a] by blast
  then show ?thesis
    using l a t by auto
qed

section \<open>Claims about snapshot references\<close>

text \<open>
  C7. A reference with two or more \<open>:\<close> (three or more fields), or whose first
  field is not \<open>src\<close>, \<open>bin\<close> or \<open>repo\<close>, makes \<open>LoadState\<close> return the invalid-path
  error, and the trace of the call is empty: no loader was called.
\<close>

theorem LoadState_invalid_tpath:
  assumes "2 \<le> count_list tpath CHR '':'' \<or>
           takeWhile (\<lambda>c. c \<noteq> CHR '':'') tpath \<notin> {''src'', ''bin'', ''repo''}"
  shows "LoadState env tpath = ([], Val (Inl InvalidTPathError))"
proof -
  have "\<not> ValidTPath tpath"
    using assms unfolding ValidTPath_iff by auto
  then show ?thesis
    by (simp add: LoadState_def ret_def)
qed

theorem LoadState_invalid_tpath_witness:
  "(2 \<le> count_list ''src:a:b'' CHR '':'' \<or>
      takeWhile (\<lambda>c. c \<noteq> CHR '':'') ''src:a:b'' \<notin> {''src'', ''bin'', ''repo''}) \<and>
   LoadState ex_env ''src:a:b'' = ([], Val (Inl InvalidTPathError)) \<and>
   (2 \<le> count_list ''git:a'' CHR '':'' \<or>
      takeWhile (\<lambda>c. c \<noteq> CHR '':'') ''git:a'' \<notin> {''src'', ''bin'', ''repo''}) \<and>
   LoadState ex_env ''git:a'' = ([], Val (Inl InvalidTPathError))"
proof -
  have a: "2 \<le> count_list ''src:a:b'' CHR '':'' \<or>
      takeWhile (\<lambda>c. c \<noteq> CHR '':'') ''src:a:b'' \<notin> {''src'', ''bin'', ''repo''}"
    by simp
  have b: "2 \<le> count_list ''git:a'' CHR '':'' \<or>
      takeWhile (\<lambda>c. c \<noteq> CHR '':'') ''git:a'' \<notin> {''src'', ''bin'', ''repo''}"
    by simp
  show ?thesis
    using a b LoadState_invalid_tpath [OF a, of ex_env] LoadState_invalid_tpath [OF b, of ex_env]
    by blast
qed

text \<open>
  C8. The bare kinds \<open>src\<close>, \<open>bin\<close> and \<open>repo\<close> pass \<open>ValidTPath\<close>; \<open>LoadState\<close> then
  reads \<^verbatim>\<open>splitted[1]\<close> of a one-field split and panics with an index out of range,
  before any loader is called.
\<close>

theorem LoadState_bare_kind_panics:
  "ValidTPath ''src'' \<and> ValidTPath ''bin'' \<and> ValidTPath ''repo'' \<and>
   length (Split ''src'' CHR '':'') = 1 \<and>
   length (Split ''bin'' CHR '':'') = 1 \<and>
   length (Split ''repo'' CHR '':'') = 1 \<and>
   LoadState env ''src'' = ([], Halt Panicked) \<and>
   LoadState env ''bin'' = ([], Halt Panicked) \<and>
   LoadState env ''repo'' = ([], Halt Panicked)"
  by (simp add: ValidTPath_def LoadState_def index_def bind_def ret_def halt_def)

section \<open>Claims about the push command\<close>

text \<open>
  C5. Both snapshots load, and the old one's name index points into its
  package list. Let the package at position \<open>i\<close> of the new snapshot be matched
  by name in the old snapshot, with the same release and a different version.
  Then it is put into \<open>bad\<close> and neither into \<open>bumped\<close> nor, by its position,
  into \<open>bset\<close>; whatever the flags, the run prints, right after the
  classification, the warning with the names of all of \<open>bad\<close> (this package's
  name among them); without \<^verbatim>\<open>--force\<close> nothing follows and the process exits
  with status 1; with \<^verbatim>\<open>--force\<close> the run goes on with the downgrade report and
  what follows it.
\<close>

theorem anomaly_reported_and_blocks:
  assumes "LoadState env oldTPath = (tr1, Val (Inr old))"
    and "LoadState env newTPath = (tr2, Val (Inr new))"
    and "indexed old"
    and "i < length (Packages new)"
    and "NameToSrcIdx old (Name (Packages new ! i)) = Some j"
    and "Release (Packages old ! nat j) = Release (Packages new ! i)"
    and "Version (Packages old ! nat j) \<noteq> Version (Packages new ! i)"
  shows "\<exists>pre b rest out.
           classified env oldTPath newTPath = (pre, Val (new, b)) \<and>
           Packages new ! i \<in> set (bad b) \<and>
           \<not> bset b (int i) \<and>
           Packages new ! i \<notin> set (bumped b) \<and>
           Log Printf '' %s'' [S (Name (Packages new ! i))] \<in> set (name_lines (bad b)) \<and>
           runPush env fl oldTPath newTPath =
             (pre @
              Log Warnf
                ''The following packages have the same release number but different version:'' [] #
              name_lines (bad b) @ Log Println [] [] # rest,
              out) \<and>
           (\<not> force fl \<longrightarrow> rest = [] \<and> out = Exited 1) \<and>
           (force fl \<longrightarrow> (rest, out) = run (after_bad env fl new b))"
proof -
  let ?pkg = "Packages new ! i"
  let ?ds = "diffs_of old (Packages new)"
  let ?b = "buckets_after new ?ds empty_buckets"
  let ?d0 = "\<lparr>Idx = int i, OldIdx = j, RelNum = Release ?pkg,
              OldRelNum = Release (Packages old ! nat j), Ver = Version ?pkg,
              OldVer = Version (Packages old ! nat j)\<rparr>"
  obtain pre where cl: "classified env oldTPath newTPath = (pre, Val (new, ?b))"
    using classified_eq [OF assms(1-3)] by blast
  have at_i: "filter (\<lambda>d. Idx d = int i) ?ds = [?d0]"
    using assms(4-7) by (simp add: diffs_of_at Diff_of_def)
  then have "?d0 \<in> set (filter (\<lambda>d. Idx d = int i) ?ds)"
    by simp
  then have d0: "?d0 \<in> set ?ds"
    by simp
  have cls: "IsSameRel ?d0 \<and> \<not> IsSame ?d0"
    using assms(6,7) by (simp add: IsSameRel_def IsSame_def)
  have p0: "pkg_at new ?d0 = ?pkg"
    by (simp add: pkg_at_def)
  have "?pkg \<in> pkg_at new ` set (filter (\<lambda>d. IsSameRel d \<and> \<not> IsSame d) ?ds)"
    using d0 cls p0 by force
  then have in_bad: "?pkg \<in> set (bad ?b)"
    by (simp add: buckets_after_def empty_buckets_def)
  have not_bset: "\<not> bset ?b (int i)"
  proof
    assume "bset ?b (int i)"
    then obtain d where d: "d \<in> set ?ds" "IsNewRel d" "Idx d = int i"
      by (auto simp: buckets_after_def empty_buckets_def)
    then have "d \<in> set (filter (\<lambda>d. Idx d = int i) ?ds)"
      by simp
    then have "d = ?d0"
      using at_i by simp
    then show False
      using d(2) assms(6) by (simp add: IsNewRel_def)
  qed
  have not_bumped: "?pkg \<notin> set (bumped ?b)"
  proof
    assume "?pkg \<in> set (bumped ?b)"
    then obtain d where d: "d \<in> set ?ds" "IsNewRel d" "pkg_at new d = ?pkg"
      by (auto simp: buckets_after_def empty_buckets_def)
    have "d \<in> set (Diff_of old (Idx d) (Packages new ! nat (Idx d)))"
      using d(1) by (rule diffs_of_mem)
    then have "d \<in> set (Diff_of old (Idx d) ?pkg)"
      using d(3) by (simp add: pkg_at_def)
    then have "RelNum d = OldRelNum d"
      using Diff_of_matched [OF _ assms(5)] assms(6) by fastforce
    then show False
      using d(2) by (simp add: IsNewRel_def)
  qed
  have ne: "bad ?b \<noteq> []"
    using in_bad by auto
  have named: "Log Printf '' %s'' [S (Name ?pkg)] \<in> set (name_lines (bad ?b))"
    using in_bad by (auto simp: name_lines_def)
  let ?k = "after_bad env fl new ?b"
  let ?rest = "if force fl then fst (run ?k) else []"
  let ?out = "if force fl then snd (run ?k) else Exited 1"
  have "runPush env fl oldTPath newTPath =
      (pre @
       Log Warnf
         ''The following packages have the same release number but different version:'' [] #
       name_lines (bad ?b) @ Log Println [] [] # ?rest, ?out)"
    using cl by (simp add: runPush_def report_bad_eq [OF ne] run_parts)
  moreover have "force fl \<longrightarrow> (?rest, ?out) = run ?k"
    by simp
  moreover have "\<not> force fl \<longrightarrow> ?rest = [] \<and> ?out = Exited 1"
    by simp
  ultimately show ?thesis
    using cl in_bad not_bset not_bumped named by blast
qed

theorem anomaly_reported_and_blocks_witness:
  "LoadState ex_env ''src:old'' = ([Call_LoadSource ''old''], Val (Inr ex_old)) \<and>
   LoadState ex_env ''src:new'' = ([Call_LoadSource ''new''], Val (Inr ex_new)) \<and>
   indexed ex_old \<and> (1::nat) < length (Packages ex_new) \<and>
   NameToSrcIdx ex_old (Name (Packages ex_new ! 1)) = Some 1 \<and>
   Release (Packages ex_old ! nat 1) = Release (Packages ex_new ! 1) \<and>
   Version (Packages ex_old ! nat 1) \<noteq> Version (Packages ex_new ! 1) \<and>
   (\<exists>pre b.
      classified ex_env ''src:old'' ''src:new'' = (pre, Val (ex_new, b)) \<and>
      Packages ex_new ! 1 \<in> set (bad b) \<and> \<not> bset b 1 \<and>
      Packages ex_new ! 1 \<notin> set (bumped b) \<and>
      runPush ex_env default_flags ''src:old'' ''src:new'' =
        (pre @
         Log Warnf
           ''The following packages have the same release number but different version:'' [] #
         name_lines (bad b) @ [Log Println [] []],
         Exited 1)) \<and>
   runPush ex_env default_flags ''src:old'' ''src:new'' =
     ([Call_LoadSource ''old'', Log Goodln ''Successfully parsed old state!'' [],
       Call_LoadSource ''new'', Log Goodln ''Successfully parsed new state!'' [],
       Log Infoln ''Diffing...'' [],
       Log Warnf
         ''The following packages have the same release number but different version:'' [],
       Log Printf '' %s'' [S ''pkgB''], Log Println [] []],
      Exited 1)"
proof -
  have h4: "(1::nat) < length (Packages ex_new)"
    by (simp add: ex_new_def)
  have h5: "NameToSrcIdx ex_old (Name (Packages ex_new ! 1)) = Some 1"
    by (simp add: ex_new_def ex_old_def)
  have h6: "Release (Packages ex_old ! nat 1) = Release (Packages ex_new ! 1)"
    by (simp add: ex_new_def ex_old_def)
  have h7: "Version (Packages ex_old ! nat 1) \<noteq> Version (Packages ex_new ! 1)"
    by (simp add: ex_new_def ex_old_def)
  have nf: "\<not> force default_flags"
    by (simp add: default_flags_def)
  obtain pre b rest out where r:
    "classified ex_env ''src:old'' ''src:new'' = (pre, Val (ex_new, b))"
    "Packages ex_new ! 1 \<in> set (bad b)" "\<not> bset b (int 1)"
    "Packages ex_new ! 1 \<notin> set (bumped b)"
    "runPush ex_env default_flags ''src:old'' ''src:new'' =
       (pre @
        Log Warnf
          ''The following packages have the same release number but different version:'' [] #
        name_lines (bad b) @ Log Println [] [] # rest, out)"
    "\<not> force default_flags \<longrightarrow> rest = [] \<and> out = Exited 1"
    using anomaly_reported_and_blocks
      [OF LoadState_ex_old LoadState_ex_new indexed_ex_old h4 h5 h6 h7, of default_flags]
    by blast
  have e: "rest = []" "out = Exited 1"
    using r(6) nf by simp_all
  have run: "runPush ex_env default_flags ''src:old'' ''src:new'' =
     ([Call_LoadSource ''old'', Log Goodln ''Successfully parsed old state!'' [],
       Call_LoadSource ''new'', Log Goodln ''Successfully parsed new state!'' [],
       Log Infoln ''Diffing...'' [],
       Log Warnf
         ''The following packages have the same release number but different version:'' [],
       Log Printf '' %s'' [S ''pkgB''], Log Println [] []],
      Exited 1)"
    by code_simp
  have "\<exists>pre b.
      classified ex_env ''src:old'' ''src:new'' = (pre, Val (ex_new, b)) \<and>
      Packages ex_new ! 1 \<in> set (bad b) \<and> \<not> bset b 1 \<and>
      Packages ex_new ! 1 \<notin> set (bumped b) \<and>
      runPush ex_env default_flags ''src:old'' ''src:new'' =
        (pre @
         Log Warnf
           ''The following packages have the same release number but different version:'' [] #
         name_lines (bad b) @ [Log Println [] []],
         Exited 1)"
    using r(1-5) e by auto
  then show ?thesis
    using LoadState_ex_old LoadState_ex_new indexed_ex_old h4 h5 h6 h7 run by blast
qed




text \<open>
  C9. The default of \<^verbatim>\<open>--dry-run\<close> is true. In a run with the flag set, no
  event of the trace is a call of \<^verbatim>\<open>push.Publish\<close>, however the run ends. When
  such a run gets past the checks, the lifting succeeds and the sort returns an
  order of positions of the new snapshot, the run prints the header of the
  build order and the name of each package of the order, in order, and returns
  there.
\<close>

theorem dry_run_never_publishes:
  "dryRun default_flags \<and>
   (dryRun fl \<longrightarrow>
      (\<forall>e \<in> set (fst (runPush env fl oldTPath newTPath)). \<forall>pkg. e \<noteq> Call_Publish pkg)) \<and>
   (\<forall>pre s b lifted order.
      dryRun fl \<and> checked env fl oldTPath newTPath = (pre, Val (s, b)) \<and>
      LiftGraph (DepGraph s) (bset b) = Inr lifted \<and>
      ext_TopologicalSort env lifted = Inr order \<and>
      (\<forall>idx \<in> set order. in_range s idx) \<longrightarrow>
      runPush env fl oldTPath newTPath =
        (pre @ fst (lift_bumped s b) @
         Log Goodln ''Here's the build order:'' [] # order_lines s order,
         Returned))"
proof (intro conjI allI impI)
  show "dryRun default_flags"
    by (simp add: default_flags_def)
next
  assume "dryRun fl"
  then have "no_publish (fst (runPush env fl oldTPath newTPath))"
    by (rule no_publish_runPush)
  then show "\<forall>e \<in> set (fst (runPush env fl oldTPath newTPath)). \<forall>pkg. e \<noteq> Call_Publish pkg"
    by (auto simp: no_publish_def list_all_iff)
next
  fix pre s b lifted order
  assume a: "dryRun fl \<and> checked env fl oldTPath newTPath = (pre, Val (s, b)) \<and>
      LiftGraph (DepGraph s) (bset b) = Inr lifted \<and>
      ext_TopologicalSort env lifted = Inr order \<and>
      (\<forall>idx \<in> set order. in_range s idx)"
  then have po: "print_order s order = (order_lines s order, Val ())"
    by (simp add: print_order_eq)
  have "order_and_publish env fl s lifted =
      (Log Goodln ''Here's the build order:'' [] # order_lines s order, Halt Returned)"
    using a po by (simp add: order_and_publish_def halt_def)
  then show "runPush env fl oldTPath newTPath =
        (pre @ fst (lift_bumped s b) @
         Log Goodln ''Here's the build order:'' [] # order_lines s order,
         Returned)"
    using a runPush_plan [of env fl oldTPath newTPath pre s b lifted] by simp
qed

theorem dry_run_never_publishes_witness:
  "dryRun default_flags \<and>
   dryRun (default_flags\<lparr>force := True\<rparr>) \<and>
   (\<exists>pre b.
      checked ex_env (default_flags\<lparr>force := True\<rparr>) ''src:old'' ''src:new'' =
        (pre, Val (ex_new, b)) \<and>
      LiftGraph (DepGraph ex_new) (bset b) = Inr \<lparr>nodes = [0, 3], edges = [(0, 3)]\<rparr> \<and>
      ext_TopologicalSort ex_env \<lparr>nodes = [0, 3], edges = [(0, 3)]\<rparr> = Inr [3, 0] \<and>
      in_range ex_new 3 \<and> in_range ex_new 0 \<and>
      runPush ex_env (default_flags\<lparr>force := True\<rparr>) ''src:old'' ''src:new'' =
        (pre @ fst (lift_bumped ex_new b) @
         [Log Goodln ''Here's the build order:'' [],
          Log Println [] [S ''pkgN''], Log Println [] [S ''pkgA'']],
         Returned)) \<and>
   no_publish (fst (runPush ex_env (default_flags\<lparr>force := True\<rparr>) ''src:old'' ''src:new''))"
proof -
  let ?fl = "default_flags\<lparr>force := True\<rparr>"
  let ?b = "buckets_after ex_new (diffs_of ex_old (Packages ex_new)) empty_buckets"
  let ?l = "\<lparr>nodes = [0, 3], edges = [(0, 3)]\<rparr>"
  have dr: "dryRun ?fl" and fo: "force ?fl"
    by (simp_all add: default_flags_def)
  have ds: "diffs_of ex_old (Packages ex_new) =
     [\<lparr>Idx = 0, OldIdx = 0, RelNum = 2, OldRelNum = 1, Ver = ''1.1'', OldVer = ''1.0''\<rparr>,
      \<lparr>Idx = 1, OldIdx = 1, RelNum = 3, OldRelNum = 3, Ver = ''2.1'', OldVer = ''2.0''\<rparr>,
      \<lparr>Idx = 3, OldIdx = 0, RelNum = 1, OldRelNum = 0, Ver = ''5'', OldVer = ''''\<rparr>]"
    using Changed_eq [OF indexed_ex_old, of ex_new] Changed_ex by simp
  have bu: "bumped ?b = [Packages ex_new ! 0, Packages ex_new ! 3]"
    unfolding ds by (simp add: buckets_after_def empty_buckets_def IsNewRel_def pkg_at_def)
  have bs: "bset ?b = (\<lambda>i. i = 0 \<or> i = 3)"
    unfolding ds by (auto simp: buckets_after_def empty_buckets_def IsNewRel_def fun_eq_iff)
  obtain pre0 where cl: "classified ex_env ''src:old'' ''src:new'' = (pre0, Val (ex_new, ?b))"
    using classified_eq [OF LoadState_ex_old LoadState_ex_new indexed_ex_old] by blast
  have rb: "snd (report_bad ?fl (bad ?b)) = Val ()"
    using fo by (simp add: snd_report_bad)
  have cd: "snd (check_deps ?fl ex_new (bumped ?b)) = Val ()"
    using fo by (simp add: check_deps_parts)
  have "snd (checked ex_env ?fl ''src:old'' ''src:new'') = Val (ex_new, ?b)"
    using cl rb cd bu
    by (simp add: checked_def snd_seq report_outdated_eq)
  then obtain pre where ck: "checked ex_env ?fl ''src:old'' ''src:new'' = (pre, Val (ex_new, ?b))"
    by (cases "checked ex_env ?fl ''src:old'' ''src:new''") auto
  have lf: "LiftGraph (DepGraph ex_new) (bset ?b) = Inr ?l"
    unfolding bs by (simp add: LiftGraph_def valid_graph_def ex_new_def)
  have ts: "ext_TopologicalSort ex_env ?l = Inr [3, 0]"
    by (simp add: ex_env_def TopologicalSort_def ready_def)
  have ir: "in_range ex_new 3" "in_range ex_new 0"
    by (simp_all add: in_range_def ex_new_def)
  then have all: "\<forall>idx \<in> set [3, 0]. in_range ex_new idx"
    by simp
  have "dryRun ?fl \<and> checked ex_env ?fl ''src:old'' ''src:new'' = (pre, Val (ex_new, ?b)) \<and>
      LiftGraph (DepGraph ex_new) (bset ?b) = Inr ?l \<and>
      ext_TopologicalSort ex_env ?l = Inr [3, 0] \<and>
      (\<forall>idx \<in> set [3, 0]. in_range ex_new idx)"
    using dr ck lf ts all by blast
  then have run: "runPush ex_env ?fl ''src:old'' ''src:new'' =
        (pre @ fst (lift_bumped ex_new ?b) @
         Log Goodln ''Here's the build order:'' [] # order_lines ex_new [3, 0],
         Returned)"
    using dry_run_never_publishes [of ?fl ex_env "''src:old''" "''src:new''"] by blast
  have np: "no_publish (fst (runPush ex_env ?fl ''src:old'' ''src:new''))"
    using dry_run_never_publishes [of ?fl ex_env "''src:old''" "''src:new''"] dr
    by (auto simp: no_publish_def list_all_iff is_publish_def split: event.splits)
  have ol: "order_lines ex_new [3, 0] =
      [Log Println [] [S ''pkgN''], Log Println [] [S ''pkgA'']]"
    by (simp add: order_lines_def ex_new_def)
  have "dryRun default_flags"
    by (simp add: default_flags_def)
  then show ?thesis
    using dr ck lf ts ir run np unfolding ol by blast
qed

text \<open>
  C4, as amended. Let a run get past the checks, let the lifting succeed and
  the sort of the lifted graph fail. Then, whatever the flags, the process
  exits with status 1 after \<^verbatim>\<open>Failed to compute build order\<close>, once the components
  are dealt with as follows. If the component computation itself fails, no
  component is reported. If it returns components whose members (for the
  components with two or more members) are positions of the new snapshot, the
  run reports exactly the returned components with two or more members, in the
  order returned and numbered from 1, each with the names of its members; a
  component with fewer than two members is not reported.
\<close>

theorem sort_failure_is_fatal_and_reports_components:
  assumes "checked env fl oldTPath newTPath = (pre, Val (s, b))"
    and "LiftGraph (DepGraph s) (bset b) = Inr lifted"
    and "ext_TopologicalSort env lifted = Inl err"
  shows "(\<forall>e. ext_StronglyConnectedComponents env lifted = Inl e \<longrightarrow>
            runPush env fl oldTPath newTPath =
              (pre @ fst (lift_bumped s b) @
               [Call_Create ''lifted.gv'', Call_DOT lifted,
                Log Fatalf ''Failed to compute build order: %s\<newline>'' [E err]],
               Exited 1)) \<and>
         (\<forall>cycles.
            ext_StronglyConnectedComponents env lifted = Inr cycles \<and>
            (\<forall>c \<in> set cycles. 2 \<le> length c \<longrightarrow> (\<forall>n \<in> set c. in_range s n)) \<longrightarrow>
            runPush env fl oldTPath newTPath =
              (pre @ fst (lift_bumped s b) @
               [Call_Create ''lifted.gv'', Call_DOT lifted] @
               cycle_lines s (filter (\<lambda>c. 2 \<le> length c) cycles) 1 @
               [Log Fatalf ''Failed to compute build order: %s\<newline>'' [E err]],
               Exited 1))"
proof (intro conjI allI impI)
  fix e
  assume "ext_StronglyConnectedComponents env lifted = Inl e"
  then have "order_and_publish env fl s lifted =
      ([Call_Create ''lifted.gv'', Call_DOT lifted,
        Log Fatalf ''Failed to compute build order: %s\<newline>'' [E err]],
       Halt (Exited 1))"
    using assms(3) by (simp add: order_and_publish_def fatalf_def)
  then show "runPush env fl oldTPath newTPath =
              (pre @ fst (lift_bumped s b) @
               [Call_Create ''lifted.gv'', Call_DOT lifted,
                Log Fatalf ''Failed to compute build order: %s\<newline>'' [E err]],
               Exited 1)"
    using runPush_plan [OF assms(1,2)] by simp
next
  fix cycles
  assume a: "ext_StronglyConnectedComponents env lifted = Inr cycles \<and>
            (\<forall>c \<in> set cycles. 2 \<le> length c \<longrightarrow> (\<forall>n \<in> set c. in_range s n))"
  then have "report_cycles s cycles 0 =
      (cycle_lines s (filter (\<lambda>c. 2 \<le> length c) cycles) (0 + 1), Val ())"
    by (intro report_cycles_eq) simp
  then have "order_and_publish env fl s lifted =
      ([Call_Create ''lifted.gv'', Call_DOT lifted] @
       cycle_lines s (filter (\<lambda>c. 2 \<le> length c) cycles) 1 @
       [Log Fatalf ''Failed to compute build order: %s\<newline>'' [E err]],
       Halt (Exited 1))"
    using assms(3) a by (simp add: order_and_publish_def fatalf_def)
  then show "runPush env fl oldTPath newTPath =
              (pre @ fst (lift_bumped s b) @
               [Call_Create ''lifted.gv'', Call_DOT lifted] @
               cycle_lines s (filter (\<lambda>c. 2 \<le> length c) cycles) 1 @
               [Log Fatalf ''Failed to compute build order: %s\<newline>'' [E err]],
               Exited 1)"
    using runPush_plan [OF assms(1,2)] by simp
qed

theorem sort_failure_is_fatal_and_reports_components_witness:
  "(\<exists>pre b.
      checked ex_env \<lparr>force = True, dryRun = False\<rparr> ''src:old'' ''src:cyc'' =
        (pre, Val (ex_cyc, b)) \<and>
      LiftGraph (DepGraph ex_cyc) (bset b) =
        Inr \<lparr>nodes = [0, 2, 3], edges = [(0, 3), (3, 2), (3, 0)]\<rparr> \<and>
      ext_TopologicalSort ex_env \<lparr>nodes = [0, 2, 3], edges = [(0, 3), (3, 2), (3, 0)]\<rparr> =
        Inl (GraphError ''topological sort cannot be computed on graph with cycles'') \<and>
      ext_StronglyConnectedComponents ex_env
        \<lparr>nodes = [0, 2, 3], edges = [(0, 3), (3, 2), (3, 0)]\<rparr> = Inr [[2], [0, 3]] \<and>
      in_range ex_cyc 0 \<and> in_range ex_cyc 3 \<and>
      runPush ex_env \<lparr>force = True, dryRun = False\<rparr> ''src:old'' ''src:cyc'' =
        (pre @ fst (lift_bumped ex_cyc b) @
         [Call_Create ''lifted.gv'',
          Call_DOT \<lparr>nodes = [0, 2, 3], edges = [(0, 3), (3, 2), (3, 0)]\<rparr>,
          Log Debugf ''Cycle %d:'' [I 1],
          Log Printf '' %s'' [S ''pkgA''], Log Printf '' %s'' [S ''pkgN''], Log Println [] [],
          Log Fatalf ''Failed to compute build order: %s\<newline>''
            [E (GraphError ''topological sort cannot be computed on graph with cycles'')]],
         Exited 1))"
proof -
  let ?fl = "\<lparr>force = True, dryRun = False\<rparr>"
  let ?ds = "diffs_of ex_old (Packages ex_cyc)"
  let ?b = "buckets_after ex_cyc ?ds empty_buckets"
  let ?l = "\<lparr>nodes = [0, 2, 3], edges = [(0, 3), (3, 2), (3, 0)]\<rparr>"
  let ?err = "GraphError ''topological sort cannot be computed on graph with cycles''"
  have "Changed ex_old ex_cyc =
     Val [\<lparr>Idx = 0, OldIdx = 0, RelNum = 2, OldRelNum = 1, Ver = ''1.1'', OldVer = ''1.0''\<rparr>,
          \<lparr>Idx = 2, OldIdx = 2, RelNum = 8, OldRelNum = 7, Ver = ''0.1'', OldVer = ''0.1''\<rparr>,
          \<lparr>Idx = 3, OldIdx = 0, RelNum = 1, OldRelNum = 0, Ver = ''5'', OldVer = ''''\<rparr>]"
    by (simp add: Changed_def enumerate_from0_def ex_old_def ex_cyc_def upt_rec)
  then have ds: "?ds =
     [\<lparr>Idx = 0, OldIdx = 0, RelNum = 2, OldRelNum = 1, Ver = ''1.1'', OldVer = ''1.0''\<rparr>,
      \<lparr>Idx = 2, OldIdx = 2, RelNum = 8, OldRelNum = 7, Ver = ''0.1'', OldVer = ''0.1''\<rparr>,
      \<lparr>Idx = 3, OldIdx = 0, RelNum = 1, OldRelNum = 0, Ver = ''5'', OldVer = ''''\<rparr>]"
    using Changed_eq [OF indexed_ex_old, of ex_cyc] by simp
  have bu: "bumped ?b \<noteq> []"
    unfolding ds by (simp add: buckets_after_def empty_buckets_def IsNewRel_def)
  have bs: "bset ?b = (\<lambda>i. i = 0 \<or> i = 2 \<or> i = 3)"
    unfolding ds by (auto simp: buckets_after_def empty_buckets_def IsNewRel_def fun_eq_iff)
  obtain pre0 where cl: "classified ex_env ''src:old'' ''src:cyc'' = (pre0, Val (ex_cyc, ?b))"
    using classified_eq [OF LoadState_ex_old LoadState_ex_cyc indexed_ex_old] by blast
  have rb: "snd (report_bad ?fl (bad ?b)) = Val ()"
    by (simp add: snd_report_bad)
  have cd: "snd (check_deps ?fl ex_cyc (bumped ?b)) = Val ()"
    by (simp add: check_deps_parts)
  have "snd (checked ex_env ?fl ''src:old'' ''src:cyc'') = Val (ex_cyc, ?b)"
    using cl rb cd bu
    by (simp add: checked_def snd_seq report_outdated_eq)
  then obtain pre where ck: "checked ex_env ?fl ''src:old'' ''src:cyc'' = (pre, Val (ex_cyc, ?b))"
    by (cases "checked ex_env ?fl ''src:old'' ''src:cyc''") auto
  have lf: "LiftGraph (DepGraph ex_cyc) (bset ?b) = Inr ?l"
    unfolding bs by (simp add: LiftGraph_def valid_graph_def ex_cyc_def)
  have ts: "ext_TopologicalSort ex_env ?l = Inl ?err"
    by (simp add: ex_env_def TopologicalSort_def ready_def)
  have sc: "ext_StronglyConnectedComponents ex_env ?l = Inr [[2], [0, 3]]"
    by (simp add: ex_env_def)
  have ir: "in_range ex_cyc 0" "in_range ex_cyc 3"
    by (simp_all add: in_range_def ex_cyc_def)
  have "ext_StronglyConnectedComponents ex_env ?l = Inr [[2], [0, 3]] \<and>
      (\<forall>c \<in> set [[2], [0, 3]]. 2 \<le> length c \<longrightarrow> (\<forall>n \<in> set c. in_range ex_cyc n))"
    using sc ir by simp
  then have "runPush ex_env ?fl ''src:old'' ''src:cyc'' =
      (pre @ fst (lift_bumped ex_cyc ?b) @
       [Call_Create ''lifted.gv'', Call_DOT ?l] @
       cycle_lines ex_cyc (filter (\<lambda>c. 2 \<le> length c) [[2], [0, 3]]) 1 @
       [Log Fatalf ''Failed to compute build order: %s\<newline>'' [E ?err]],
       Exited 1)"
    using sort_failure_is_fatal_and_reports_components [OF ck lf ts] by blast
  then have "runPush ex_env ?fl ''src:old'' ''src:cyc'' =
        (pre @ fst (lift_bumped ex_cyc ?b) @
         [Call_Create ''lifted.gv'', Call_DOT ?l,
          Log Debugf ''Cycle %d:'' [I 1],
          Log Printf '' %s'' [S ''pkgA''], Log Printf '' %s'' [S ''pkgN''], Log Println [] [],
          Log Fatalf ''Failed to compute build order: %s\<newline>'' [E ?err]],
         Exited 1)"
    by (simp add: ex_cyc_def)
  then show ?thesis
    using ck lf ts sc ir by blast
qed

text \<open>
  C4 as stated fails where the component computation itself returns an error:
  the lifted graph below has the edges \<open>0 \<rightarrow> 3\<close> and \<open>3 \<rightarrow> 0\<close>, so \<open>pkgA\<close> and \<open>pkgN\<close>
  form a component with two members, the sort fails, and the run ends with
  status 1 without reporting any component.
\<close>

theorem sort_failure_without_component_report:
  "LiftGraph (DepGraph ex_cyc) (\<lambda>i. i = 0 \<or> i = 2 \<or> i = 3) =
     Inr \<lparr>nodes = [0, 2, 3], edges = [(0, 3), (3, 2), (3, 0)]\<rparr> \<and>
   ext_TopologicalSort ex_env_no_components
     \<lparr>nodes = [0, 2, 3], edges = [(0, 3), (3, 2), (3, 0)]\<rparr> =
     Inl (GraphError ''topological sort cannot be computed on graph with cycles'') \<and>
   ext_StronglyConnectedComponents ex_env_no_components
     \<lparr>nodes = [0, 2, 3], edges = [(0, 3), (3, 2), (3, 0)]\<rparr> =
     Inl (GraphError ''no components'') \<and>
   runPush ex_env_no_components \<lparr>force = True, dryRun = False\<rparr> ''src:old'' ''src:cyc'' =
     ([Call_LoadSource ''old'', Log Goodln ''Successfully parsed old state!'' [],
       Call_LoadSource ''cyc'', Log Goodln ''Successfully parsed new state!'' [],
       Log Infoln ''Diffing...'' [],
       Log Goodf ''The following packages will be updated:'' [],
       Log Printf '' %s'' [S ''pkgA''], Log Printf '' %s'' [S ''pkgS''],
       Log Printf '' %s'' [S ''pkgN''], Log Println [] [],
       Log Goodln ''Successfully generated dependency graph!'' [],
       Log Goodln ''Successfully isolated packages to update!'' [],
       Call_Create ''lifted.gv'',
       Call_DOT \<lparr>nodes = [0, 2, 3], edges = [(0, 3), (3, 2), (3, 0)]\<rparr>,
       Log Fatalf ''Failed to compute build order: %s\<newline>''
         [E (GraphError ''topological sort cannot be computed on graph with cycles'')]],
      Exited 1) \<and>
   Log Debugf ''Cycle %d:'' [I 1] \<notin>
     set (fst (runPush ex_env_no_components \<lparr>force = True, dryRun = False\<rparr>
                ''src:old'' ''src:cyc''))"
proof -
  have run: "runPush ex_env_no_components \<lparr>force = True, dryRun = False\<rparr> ''src:old'' ''src:cyc'' =
     ([Call_LoadSource ''old'', Log Goodln ''Successfully parsed old state!'' [],
       Call_LoadSource ''cyc'', Log Goodln ''Successfully parsed new state!'' [],
       Log Infoln ''Diffing...'' [],
       Log Goodf ''The following packages will be updated:'' [],
       Log Printf '' %s'' [S ''pkgA''], Log Printf '' %s'' [S ''pkgS''],
       Log Printf '' %s'' [S ''pkgN''], Log Println [] [],
       Log Goodln ''Successfully generated dependency graph!'' [],
       Log Goodln ''Successfully isolated packages to update!'' [],
       Call_Create ''lifted.gv'',
       Call_DOT \<lparr>nodes = [0, 2, 3], edges = [(0, 3), (3, 2), (3, 0)]\<rparr>,
       Log Fatalf ''Failed to compute build order: %s\<newline>''
         [E (GraphError ''topological sort cannot be computed on graph with cycles'')]],
      Exited 1)"
    by code_simp
  have lf: "LiftGraph (DepGraph ex_cyc) (\<lambda>i. i = 0 \<or> i = 2 \<or> i = 3) =
     Inr \<lparr>nodes = [0, 2, 3], edges = [(0, 3), (3, 2), (3, 0)]\<rparr>"
    by (simp add: LiftGraph_def valid_graph_def ex_cyc_def)
  have ts: "ext_TopologicalSort ex_env_no_components
     \<lparr>nodes = [0, 2, 3], edges = [(0, 3), (3, 2), (3, 0)]\<rparr> =
     Inl (GraphError ''topological sort cannot be computed on graph with cycles'')"
    by (simp add: ex_env_no_components_def ex_env_def TopologicalSort_def ready_def)
  have sc: "ext_StronglyConnectedComponents ex_env_no_components
     \<lparr>nodes = [0, 2, 3], edges = [(0, 3), (3, 2), (3, 0)]\<rparr> =
     Inl (GraphError ''no components'')"
    by (simp add: ex_env_no_components_def)
  show ?thesis
    unfolding run using lf ts sc by simp
qed

end
